theory Spec2Isabelle
  imports Main "HOL-Library.Word" "HOL-Library.Sublist"
begin

section \<open>The audio response pipeline of \<open>src/app/page.tsx\<close>\<close>

text \<open>
  The component \<open>Home\<close> keeps two pieces of React state (\<open>audioData\<close>, \<open>isPlaying\<close>)
  and six refs. Its handlers call into the browser: the audio element, the Web Audio
  graph, object URLs and \<open>requestAnimationFrame\<close>. The model is one record holding the
  component's state and refs together with the part of the browser the handlers act on,
  and one function per handler of the source. Every browser call is also appended to a
  log, so that the order of calls can be stated.

  What the model takes from the browser rather than from the source:
  \<^item> \<open>pause()\<close> sets the element's \<open>paused\<close> flag and queues a \<open>pause\<close> event if the
    flag was clear; \<open>play()\<close> clears the flag and queues a \<open>play\<close> event if the flag
    was set, unless the environment refuses to play; a clip that reaches its end sets
    the flag and queues \<open>pause\<close>, then \<open>ended\<close> (the HTML standard's media element);
    \<open>close()\<close> marks an \<open>AudioContext\<close> closed at once and rejects with
    \<open>InvalidStateError\<close> when it is marked already, and the promise of the call that
    closed it is fulfilled later, when the context has released the audio device (the
    Web Audio API); \<open>getByteFrequencyData\<close> fills the array it is given; a frame that
    was requested runs once unless it is cancelled.
  \<^item> \<open>setAudioData\<close> and \<open>setIsPlaying\<close> take effect at once.
  \<^item> Every element gets the same three listeners, closures over the same refs, so what
    an event does is independent of the element that fired it; the state keeps the
    current element only, and the queue of events outlives a replaced element.

  \<open>handleAudioResponse\<close> is an \<open>async\<close> function, and it is modelled twice. First as
  one function, a call taken through all its \<open>await\<close>s with nothing else running in
  between; \<open>step\<close> is the event loop in which every call is of that kind (the one
  exception being the rejection of the \<open>play()\<close> promise, which may arrive later, as an
  event of its own), and \<open>reachable\<close> are the states of that loop. Then \<open>await\<close> by
  \<open>await\<close>: a call stops at each one, and listeners, frames, the toggle, further calls
  and the unmount effect of lines 27-40 run before it is resumed (\<open>istep\<close>). Lemma
  \<open>awaited_call\<close> relates the two: the one function is what the second model does when a
  call is resumed before anything else happens.
\<close>

subsection \<open>Data\<close>

type_synonym byte = "8 word"

text \<open>A \<open>Blob\<close>: its \<open>type\<close> string and its bytes.\<close>

record blob =
  blob_type :: string
  blob_bytes :: "byte list"

text \<open>
  An \<open>HTMLAudioElement\<close>. \<open>src\<close> is \<open>None\<close> for the empty string (falsy in the source's
  \<open>if (audioRef.current.src)\<close>) and \<open>Some u\<close> for the object URL numbered \<open>u\<close>, a
  non-empty string. \<open>currentTime\<close> is the playback position in whole units; the source
  only ever assigns \<open>0\<close> to it.
\<close>

record element =
  src :: "nat option"
  currentTime :: nat
  paused :: bool

record analyser =
  fftSize :: nat

definition frequencyBinCount :: "analyser \<Rightarrow> nat" where
  "frequencyBinCount a = fftSize a div 2"

text \<open>The three element events the source listens to.\<close>

datatype signal = Play | Pause | Ended

text \<open>Browser calls, as logged.\<close>

datatype effect =
    ElementPause
  | ElementPlay
  | ElementSetSrc nat
  | ElementSetCurrentTime nat
  | SourceDisconnect nat
  | AnalyserDisconnect
  | ContextClose nat
  | CancelAnimationFrame nat
  | RequestAnimationFrame nat
  | RevokeObjectURL nat
  | CreateObjectURL nat
  | NewAudioContext nat
  | CreateAnalyser
  | NewAudio
  | CreateMediaElementSource nat
  | ConnectSourceToAnalyser
  | ConnectAnalyserToDestination
  | ConsoleError

datatype error = TypeError | InvalidStateError

text \<open>
  The first eight fields are the component's: \<open>useState\<close> values and \<open>useRef\<close> cells
  under the source's names. \<open>audioData\<close> holds the address of a \<open>Uint8Array\<close> in \<open>heap\<close>.
  The others are the browser's: the arrays allocated so far, the audio contexts that are
  not closed, the object URLs that are not revoked (with the blob each one names), the animation
  frames requested and neither run nor cancelled, the element events queued for dispatch,
  a counter for fresh identifiers, and the log of calls.
\<close>

record state =
  audioData :: "nat option"
  isPlaying :: bool
  audioContextRef :: "nat option"
  analyserRef :: "analyser option"
  audioSourceRef :: "nat option"
  animationFrameRef :: "nat option"
  audioRef :: "element option"
  currentAudioUrlRef :: "nat option"
  heap :: "byte list list"
  open_contexts :: "nat list"
  live_urls :: "(nat \<times> blob) list"
  pending_frames :: "nat list"
  events :: "signal list"
  fresh :: nat
  trace :: "effect list"

definition init :: state where
  "init = \<lparr>audioData = None, isPlaying = False, audioContextRef = None,
     analyserRef = None, audioSourceRef = None, animationFrameRef = None,
     audioRef = None, currentAudioUrlRef = None, heap = [], open_contexts = [],
     live_urls = [], pending_frames = [], events = [], fresh = 1, trace = []\<rparr>"

text \<open>The array the visualizer is given: \<open>audioData\<close> read through the heap.\<close>

definition snapshot :: "state \<Rightarrow> byte list option" where
  "snapshot s = (case audioData s of None \<Rightarrow> None | Some a \<Rightarrow> Some (heap s ! a))"

subsection \<open>Browser calls\<close>

definition emit :: "effect \<Rightarrow> state \<Rightarrow> state" where
  "emit e s = s\<lparr>trace := trace s @ [e]\<rparr>"

text \<open>
  \<open>setAudioData(arr)\<close> for an array that was just allocated: the array gets the next
  address of the heap and \<open>audioData\<close> points to it.
\<close>

definition setAudioData_new :: "byte list \<Rightarrow> state \<Rightarrow> state" where
  "setAudioData_new arr s = s\<lparr>heap := heap s @ [arr], audioData := Some (length (heap s))\<rparr>"

text \<open>
  \<open>audioRef.current.pause()\<close>: the element's \<open>paused\<close> flag is set, and a \<open>pause\<close> event
  is queued when the flag was not set before.
\<close>

definition el_pause :: "state \<Rightarrow> state" where
  "el_pause s =
     (case audioRef s of
        None \<Rightarrow> s
      | Some el \<Rightarrow>
          emit ElementPause
            (if paused el then s
             else s\<lparr>audioRef := Some (el\<lparr>paused := True\<rparr>), events := events s @ [Pause]\<rparr>))"

text \<open>
  \<open>audioRef.current.play()\<close>. \<open>allowed\<close> is the environment's answer: when it refuses
  (autoplay policy) nothing changes and the returned promise is rejected; otherwise the
  \<open>paused\<close> flag is cleared, and a \<open>play\<close> event is queued when the flag was set before.
\<close>

definition el_play :: "bool \<Rightarrow> state \<Rightarrow> state" where
  "el_play allowed s =
     (case audioRef s of
        None \<Rightarrow> s
      | Some el \<Rightarrow>
          emit ElementPlay
            (if allowed \<and> paused el
             then s\<lparr>audioRef := Some (el\<lparr>paused := False\<rparr>), events := events s @ [Play]\<rparr>
             else s))"

definition el_set_currentTime :: "nat \<Rightarrow> state \<Rightarrow> state" where
  "el_set_currentTime t s =
     (case audioRef s of
        None \<Rightarrow> s
      | Some el \<Rightarrow> emit (ElementSetCurrentTime t) (s\<lparr>audioRef := Some (el\<lparr>currentTime := t\<rparr>)\<rparr>))"

definition el_set_src :: "nat \<Rightarrow> state \<Rightarrow> state" where
  "el_set_src u s =
     (case audioRef s of
        None \<Rightarrow> s
      | Some el \<Rightarrow> emit (ElementSetSrc u) (s\<lparr>audioRef := Some (el\<lparr>src := Some u\<rparr>)\<rparr>))"

text \<open>
  \<open>if (animationFrameRef.current) { cancelAnimationFrame(...); animationFrameRef.current = null; }\<close>
  The guard is JavaScript truthiness: a handle that is \<open>null\<close> or \<open>0\<close> is skipped.
\<close>

definition cancel_stored_frame :: "state \<Rightarrow> state" where
  "cancel_stored_frame s =
     (case animationFrameRef s of
        None \<Rightarrow> s
      | Some h \<Rightarrow>
          if h = 0 then s
          else (emit (CancelAnimationFrame h) s)
                 \<lparr>pending_frames := removeAll h (pending_frames s), animationFrameRef := None\<rparr>)"

text \<open>
  \<open>analyser.getByteFrequencyData(array)\<close>: the first \<open>min (length array) frequencyBinCount\<close>
  cells are overwritten with the current magnitudes \<open>f\<close>, the rest are left alone.
\<close>

definition getByteFrequencyData :: "(nat \<Rightarrow> byte) \<Rightarrow> analyser \<Rightarrow> byte list \<Rightarrow> byte list" where
  "getByteFrequencyData f a arr =
     (let n = min (length arr) (frequencyBinCount a) in map f [0..<n] @ drop n arr)"

subsection \<open>The handlers of the source\<close>

text \<open>
  \<open>animate\<close> (lines 146-153): with no analyser it returns; otherwise it allocates an array
  of \<open>frequencyBinCount\<close> zero bytes, fills it, publishes it and requests the next frame,
  storing the handle.
\<close>

definition animate :: "(nat \<Rightarrow> byte) \<Rightarrow> state \<Rightarrow> state" where
  "animate f s =
     (case analyserRef s of
        None \<Rightarrow> s
      | Some a \<Rightarrow>
          let dataArray = getByteFrequencyData f a (replicate (frequencyBinCount a) 0);
              s1 = setAudioData_new dataArray s;
              h = fresh s1
          in (emit (RequestAnimationFrame h) s1)
               \<lparr>pending_frames := pending_frames s1 @ [h], animationFrameRef := Some h,
                fresh := Suc h\<rparr>)"

text \<open>A requested frame runs: the browser drops the handle and calls \<open>animate\<close>.\<close>

definition frame_fires :: "nat \<Rightarrow> (nat \<Rightarrow> byte) \<Rightarrow> state \<Rightarrow> state option" where
  "frame_fires h f s =
     (if h \<in> set (pending_frames s)
      then Some (animate f (s\<lparr>pending_frames := removeAll h (pending_frames s)\<rparr>))
      else None)"

text \<open>The listeners registered at lines 156-179.\<close>

definition on_play :: "(nat \<Rightarrow> byte) \<Rightarrow> state \<Rightarrow> state" where
  "on_play f s = animate f (s\<lparr>isPlaying := True\<rparr>)"

definition on_pause :: "state \<Rightarrow> state" where
  "on_pause s = (cancel_stored_frame (s\<lparr>isPlaying := False\<rparr>))\<lparr>audioData := None\<rparr>"

definition on_ended :: "state \<Rightarrow> state" where
  "on_ended s = (cancel_stored_frame s)\<lparr>isPlaying := False, audioData := None\<rparr>"

text \<open>The \<open>catch\<close> block of lines 184-190.\<close>

definition play_catch :: "state \<Rightarrow> state" where
  "play_catch s = (emit ConsoleError s)\<lparr>isPlaying := False, audioData := None\<rparr>"

text \<open>
  \<open>togglePlayback\<close> (lines 54-74). A rejected \<open>play()\<close> is logged by the \<open>.catch\<close> handler.
\<close>

definition play_logged :: "bool \<Rightarrow> state \<Rightarrow> state" where
  "play_logged allowed s = (if allowed then el_play allowed s else emit ConsoleError (el_play allowed s))"

definition togglePlayback :: "bool \<Rightarrow> state \<Rightarrow> state" where
  "togglePlayback allowed s =
     (case audioRef s of
        None \<Rightarrow> s
      | Some el \<Rightarrow>
          if isPlaying s then el_pause s
          else if src el \<noteq> None then play_logged allowed (el_set_currentTime 0 s)
          else (case currentAudioUrlRef s of
                  Some u \<Rightarrow> play_logged allowed (el_set_src u s)
                | None \<Rightarrow> s))"

text \<open>
  \<open>cleanup\<close> (lines 91-116), one definition for each guarded block, in the order of the
  source. \<open>AudioContext.close()\<close> rejects with \<open>InvalidStateError\<close> on a context that is
  already closed, and the \<open>await\<close> turns that into an exception; the blocks after it do
  not run then.
\<close>

definition pause_element :: "state \<Rightarrow> state" where
  "pause_element s = (if audioRef s \<noteq> None then el_pause s else s)"

definition disconnect_source :: "state \<Rightarrow> state" where
  "disconnect_source s =
     (case audioSourceRef s of
        Some n \<Rightarrow> (emit (SourceDisconnect n) s)\<lparr>audioSourceRef := None\<rparr>
      | None \<Rightarrow> s)"

definition disconnect_analyser :: "state \<Rightarrow> state" where
  "disconnect_analyser s =
     (case analyserRef s of
        Some a \<Rightarrow> (emit AnalyserDisconnect s)\<lparr>analyserRef := None\<rparr>
      | None \<Rightarrow> s)"

definition close_context :: "state \<Rightarrow> error + state" where
  "close_context s =
     (case audioContextRef s of
        Some c \<Rightarrow>
          if c \<in> set (open_contexts s)
          then Inr ((emit (ContextClose c) s)
                      \<lparr>open_contexts := removeAll c (open_contexts s), audioContextRef := None\<rparr>)
          else Inl InvalidStateError
      | None \<Rightarrow> Inr s)"

definition cleanup_tail :: "state \<Rightarrow> state" where
  "cleanup_tail s = (cancel_stored_frame s)\<lparr>audioData := None, isPlaying := False\<rparr>"

definition cleanup :: "state \<Rightarrow> error + state" where
  "cleanup s =
     (case close_context (disconnect_analyser (disconnect_source (pause_element s))) of
        Inl e \<Rightarrow> Inl e
      | Inr s4 \<Rightarrow> Inr (cleanup_tail s4))"

text \<open>Lines 120-123: the previous object URL is revoked; the ref keeps the stale value.\<close>

definition revoke_previous :: "state \<Rightarrow> state" where
  "revoke_previous s =
     (case currentAudioUrlRef s of
        None \<Rightarrow> s
      | Some u \<Rightarrow> (emit (RevokeObjectURL u) s)\<lparr>live_urls := filter (\<lambda>p. fst p \<noteq> u) (live_urls s)\<rparr>)"

text \<open>
  Lines 125-143: a new context, an analyser with \<open>fftSize = 256\<close>, a new element whose \<open>src\<close>
  is a new object URL for the blob, and the source node; then the two connections. The
  three identifiers are taken from the counter in the order of the calls.
\<close>

definition build :: "blob \<Rightarrow> state \<Rightarrow> state" where
  "build b s =
     (let c = fresh s; u = Suc c; n = Suc u;
          audio = \<lparr>src = Some u, currentTime = 0, paused = True\<rparr>
      in s\<lparr>audioContextRef := Some c,
            open_contexts := open_contexts s @ [c],
            analyserRef := Some ((\<lparr>fftSize = 2048\<rparr>)\<lparr>fftSize := 256\<rparr>),
            live_urls := live_urls s @ [(u, b)],
            currentAudioUrlRef := Some u,
            audioRef := Some audio,
            audioSourceRef := Some n,
            fresh := Suc n,
            trace := trace s @ [NewAudioContext c, CreateAnalyser, NewAudio, CreateObjectURL u,
                       ElementSetSrc u, CreateMediaElementSource n, ConnectSourceToAnalyser,
                       ConnectAnalyserToDestination]\<rparr>)"

text \<open>Lines 181-190: \<open>await audio.play()\<close> inside \<open>try\<close>, the rejection handled by \<open>catch\<close>.\<close>

definition start_playback :: "bool \<Rightarrow> state \<Rightarrow> state" where
  "start_playback allowed s = (if allowed then el_play allowed s else play_catch (el_play allowed s))"

text \<open>
  \<open>handleAudioResponse\<close> (lines 76-191). The argument is \<open>None\<close> for \<open>null\<close> or \<open>undefined\<close>;
  reading \<open>.type\<close> of that raises \<open>TypeError\<close> at line 78, before the guard of line 88.
\<close>

definition handleAudioResponse :: "blob option \<Rightarrow> bool \<Rightarrow> state \<Rightarrow> error + state" where
  "handleAudioResponse audioBlob allowed s =
     (case audioBlob of
        None \<Rightarrow> Inl TypeError
      | Some b \<Rightarrow>
          if blob_type b = ''application/octet-stream''
          then Inr ((setAudioData_new (blob_bytes b) s)\<lparr>isPlaying := True\<rparr>)
          else if audioBlob = None then Inr s
          else (case cleanup s of
                  Inl e \<Rightarrow> Inl e
                | Inr s1 \<Rightarrow> Inr (start_playback allowed (build b (revoke_previous s1)))))"

subsection \<open>The event loop\<close>

text \<open>
  What can happen next when calls of \<open>handleAudioResponse\<close> do not overlap with anything:
  a payload is submitted and the call runs through all its \<open>await\<close>s (\<open>Submit\<close>, with the
  environment's answer to the \<open>play()\<close> of a clip), the toggle is pressed (\<open>Toggle\<close>,
  likewise), the browser
  dispatches the event at the head of the queue (\<open>Deliver\<close>, with the magnitudes the
  analyser reports should the listener sample), a requested frame runs (\<open>Tick\<close>, with its
  handle and the magnitudes), the playing element reaches the end of its clip at some
  position (\<open>EndOfClip\<close>: the browser sets \<open>paused\<close> and queues \<open>pause\<close> and \<open>ended\<close>),
  or a pending \<open>play()\<close> promise of \<open>handleAudioResponse\<close> is rejected late
  (\<open>PlayRejected\<close>: the \<open>catch\<close> block runs). \<open>step\<close> is \<open>None\<close> when the action cannot
  happen in the state, or when the handler raises.
\<close>

datatype action =
    Submit "blob option" bool
  | Toggle bool
  | Deliver signal "nat \<Rightarrow> byte"
  | Tick nat "nat \<Rightarrow> byte"
  | EndOfClip nat
  | PlayRejected

definition dispatch :: "signal \<Rightarrow> (nat \<Rightarrow> byte) \<Rightarrow> state \<Rightarrow> state" where
  "dispatch sig f s = (case sig of Play \<Rightarrow> on_play f s | Pause \<Rightarrow> on_pause s | Ended \<Rightarrow> on_ended s)"

fun step :: "action \<Rightarrow> state \<Rightarrow> state option" where
  "step (Submit p allowed) s =
     (case handleAudioResponse p allowed s of Inr s' \<Rightarrow> Some s' | Inl e \<Rightarrow> None)"
| "step (Toggle allowed) s = Some (togglePlayback allowed s)"
| "step (Deliver sig f) s =
     (case events s of
        [] \<Rightarrow> None
      | e # q \<Rightarrow> if e = sig then Some (dispatch sig f (s\<lparr>events := q\<rparr>)) else None)"
| "step (Tick h f) s = frame_fires h f s"
| "step (EndOfClip t) s =
     (case audioRef s of
        None \<Rightarrow> None
      | Some el \<Rightarrow>
          if paused el then None
          else Some (s\<lparr>audioRef := Some (el\<lparr>currentTime := t, paused := True\<rparr>),
                       events := events s @ [Pause, Ended]\<rparr>))"
| "step PlayRejected s = (if audioRef s = None then None else Some (play_catch s))"

inductive reachable :: "state \<Rightarrow> bool" where
  reachable_init: "reachable init"
| reachable_step: "reachable s \<Longrightarrow> step a s = Some s' \<Longrightarrow> reachable s'"

fun run :: "action list \<Rightarrow> state \<Rightarrow> state option" where
  "run [] s = Some s"
| "run (a # as) s = (case step a s of None \<Rightarrow> None | Some s' \<Rightarrow> run as s')"

subsection \<open>Calls that wait\<close>

text \<open>
  \<open>handleAudioResponse\<close> is handed to \<open>Debater\<close> as the callback \<open>onAudioResponse\<close>, and
  the promise it returns is nobody's to await. The function gives up control at each of
  its \<open>await\<close>s: line 80 (\<open>arrayBuffer()\<close>), line 107 (\<open>close()\<close>, inside \<open>cleanup\<close>),
  line 118 (\<open>cleanup()\<close> itself, also when \<open>cleanup\<close> had nothing to wait for) and line
  183 (\<open>play()\<close>). A call that waits is recorded by the place where it waits: with the
  blob it was given, at line 107 with the context whose close it waits for, and at line
  183 with whether the environment let playback start.
\<close>

datatype suspended =
    AtArrayBuffer blob
  | AtClose blob nat
  | AtCleanup blob
  | AtPlay bool

text \<open>
  The state of the component and the browser as before (\<open>open_contexts\<close> are now the
  contexts that are not marked closed), the calls that wait, oldest first, the contexts
  that are marked closed and have not yet released the audio device, and the elements
  \<open>audioRef\<close> held when it was overwritten, as they were at that moment.
\<close>

record world =
  comp :: state
  waiting :: "suspended list"
  closing :: "nat list"
  detached :: "element list"

definition world0 :: world where
  "world0 = \<lparr>comp = init, waiting = [], closing = [], detached = []\<rparr>"

definition suspend :: "suspended \<Rightarrow> world \<Rightarrow> world" where
  "suspend k w = w\<lparr>waiting := waiting w @ [k]\<rparr>"

text \<open>
  A call from line 76 to its first \<open>await\<close>, with the error it raises, if any. For a
  clip that is \<open>cleanup\<close> down to line 107 when \<open>audioContextRef\<close> holds a context:
  \<open>close()\<close> is called and the call waits; on a context that is marked closed the
  promise is rejected instead, the \<open>await\<close> throws, and neither the rest of \<open>cleanup\<close> nor
  anything after line 118 runs. When the ref is empty \<open>cleanup\<close> runs to its end
  without waiting, and the call waits at line 118.
\<close>

definition call_handleAudioResponse :: "blob option \<Rightarrow> world \<Rightarrow> world \<times> error option" where
  "call_handleAudioResponse audioBlob w =
     (case audioBlob of
        None \<Rightarrow> (w, Some TypeError)
      | Some b \<Rightarrow>
          if blob_type b = ''application/octet-stream'' then (suspend (AtArrayBuffer b) w, None)
          else if audioBlob = None then (w, None)
          else
            let s3 = disconnect_analyser (disconnect_source (pause_element (comp w)))
            in (case audioContextRef s3 of
                  Some c \<Rightarrow>
                    if c \<in> set (open_contexts s3)
                    then (suspend (AtClose b c)
                            (w\<lparr>comp := (emit (ContextClose c) s3)
                                         \<lparr>open_contexts := removeAll c (open_contexts s3)\<rparr>,
                               closing := closing w @ [c]\<rparr>), None)
                    else (w\<lparr>comp := emit (ContextClose c) s3\<rparr>, Some InvalidStateError)
                | None \<Rightarrow> (suspend (AtCleanup b) (w\<lparr>comp := cleanup_tail s3\<rparr>), None)))"

text \<open>
  The \<open>i\<close>-th waiting call goes on, to its next \<open>await\<close> or to its end.
  \<^item> From line 80: lines 81-84 publish the bytes of the blob.
  \<^item> From line 107, once the context has released the device: line 108 clears
    \<open>audioContextRef\<close>, whatever it holds by then, lines 110-115 follow, and \<open>cleanup\<close>
    has returned; the call waits at line 118.
  \<^item> From line 118: lines 120-183, that is the revocation of the previous object URL,
    the construction, and \<open>play()\<close> on the new element, where \<open>allowed\<close> tells whether the
    environment lets playback start; the call waits for the promise of \<open>play()\<close>.
  \<^item> From line 183: the promise is fulfilled and the call ends, or it is rejected and the
    \<open>catch\<close> block runs. It is rejected when playback was not let start, and it may also
    be rejected later (not \<open>allowed\<close>), as for a clip that turns out not to be playable.
\<close>

definition resume :: "nat \<Rightarrow> bool \<Rightarrow> world \<Rightarrow> world option" where
  "resume i allowed w =
     (if i < length (waiting w)
      then (case waiting w ! i of
              AtArrayBuffer b \<Rightarrow>
                Some (w\<lparr>comp := (setAudioData_new (blob_bytes b) (comp w))\<lparr>isPlaying := True\<rparr>,
                        waiting := take i (waiting w) @ drop (Suc i) (waiting w)\<rparr>)
            | AtClose b c \<Rightarrow>
                if c \<in> set (closing w) then None
                else Some (w\<lparr>comp := cleanup_tail ((comp w)\<lparr>audioContextRef := None\<rparr>),
                             waiting := (waiting w)[i := AtCleanup b]\<rparr>)
            | AtCleanup b \<Rightarrow>
                Some (w\<lparr>comp := el_play allowed (build b (revoke_previous (comp w))),
                        waiting := (waiting w)[i := AtPlay allowed],
                        detached := detached w
                          @ (case audioRef (comp w) of None \<Rightarrow> [] | Some el \<Rightarrow> [el])\<rparr>)
            | AtPlay started \<Rightarrow>
                Some (w\<lparr>comp := (if started \<and> allowed then comp w else play_catch (comp w)),
                        waiting := take i (waiting w) @ drop (Suc i) (waiting w)\<rparr>))
      else None)"

text \<open>
  The cleanup function of the effect (lines 29-39), run when the component unmounts: the
  stored frame is cancelled, \<open>close()\<close> is called on the context and the object URL is
  revoked. No ref is cleared, and the promise of \<open>close()\<close> is dropped, rejected or not.
\<close>

definition unmount :: "world \<Rightarrow> world" where
  "unmount w =
     (let s = comp w;
          s1 = (case animationFrameRef s of
                  Some h \<Rightarrow>
                    if h = 0 then s
                    else (emit (CancelAnimationFrame h) s)
                           \<lparr>pending_frames := removeAll h (pending_frames s)\<rparr>
                | None \<Rightarrow> s);
          w2 = (case audioContextRef s1 of
                  Some c \<Rightarrow>
                    if c \<in> set (open_contexts s1)
                    then w\<lparr>comp := (emit (ContextClose c) s1)
                                     \<lparr>open_contexts := removeAll c (open_contexts s1)\<rparr>,
                           closing := closing w @ [c]\<rparr>
                    else w\<lparr>comp := emit (ContextClose c) s1\<rparr>
                | None \<Rightarrow> w\<lparr>comp := s1\<rparr>)
      in w2\<lparr>comp := revoke_previous (comp w2)\<rparr>)"

text \<open>
  What can happen next, \<open>await\<close> by \<open>await\<close>: \<open>handleAudioResponse\<close> is called (\<open>Call\<close>; a
  call that raises leaves the state it has reached, and its rejected promise is
  dropped), a waiting call is resumed (\<open>Resume\<close>), a context that was closed releases the
  device (\<open>FinishClose\<close>), the component unmounts (\<open>Unmount\<close>), or one of the handlers
  of \<open>step\<close> runs (\<open>Handle\<close>: the toggle, an element event, a frame, the end of the clip).
  The two actions of \<open>step\<close> that stand for a whole call and for its late rejection are
  \<open>Call\<close> and \<open>Resume\<close> here. \<open>istep\<close> leaves open in which order waiting calls are
  resumed; the browser resumes them in the order in which their promises are settled.
\<close>

datatype event =
    Call "blob option"
  | Resume nat bool
  | FinishClose nat
  | Unmount
  | Handle action

fun istep :: "event \<Rightarrow> world \<Rightarrow> world option" where
  "istep (Call p) w = Some (fst (call_handleAudioResponse p w))"
| "istep (Resume i allowed) w = resume i allowed w"
| "istep (FinishClose c) w =
     (if c \<in> set (closing w) then Some (w\<lparr>closing := removeAll c (closing w)\<rparr>) else None)"
| "istep Unmount w = Some (unmount w)"
| "istep (Handle (Submit p allowed)) w = None"
| "istep (Handle PlayRejected) w = None"
| "istep (Handle a) w = (case step a (comp w) of None \<Rightarrow> None | Some s \<Rightarrow> Some (w\<lparr>comp := s\<rparr>))"

fun irun :: "event list \<Rightarrow> world \<Rightarrow> world option" where
  "irun [] w = Some w"
| "irun (e # es) w = (case istep e w of None \<Rightarrow> None | Some w' \<Rightarrow> irun es w')"

text \<open>
  One call with nothing in between: the call, the end of the close it waits for, if
  any, and its resumptions one after the other.
\<close>

definition awaited :: "blob \<Rightarrow> bool \<Rightarrow> state \<Rightarrow> event list" where
  "awaited b allowed s =
     Call (Some b) #
     (if blob_type b = ''application/octet-stream'' then [Resume 0 allowed]
      else (case audioContextRef s of Some c \<Rightarrow> [FinishClose c, Resume 0 allowed] | None \<Rightarrow> [])
           @ [Resume 0 allowed, Resume 0 allowed])"

subsection \<open>Observations\<close>

text \<open>
  Exactly one playback graph and one clip handle are live, and they belong to the blob
  \<open>b\<close>: the one open context is the one the ref holds, analyser and source node are
  there, the one object URL that is not revoked names \<open>b\<close>, the ref holds it and it is
  the \<open>src\<close> of the element.
\<close>

definition one_graph_for :: "blob \<Rightarrow> state \<Rightarrow> bool" where
  "one_graph_for b s \<longleftrightarrow>
     (case audioContextRef s of None \<Rightarrow> False | Some c \<Rightarrow> open_contexts s = [c])
   \<and> analyserRef s \<noteq> None \<and> audioSourceRef s \<noteq> None
   \<and> (case currentAudioUrlRef s of
         None \<Rightarrow> False
       | Some u \<Rightarrow> live_urls s = [(u, b)]
           \<and> (case audioRef s of None \<Rightarrow> False | Some el \<Rightarrow> src el = Some u))"

text \<open>
  The browser calls of the teardown, in the order the spec lists its steps, each present
  when the ref it releases is set.
\<close>

definition teardown_calls :: "state \<Rightarrow> effect list" where
  "teardown_calls s =
     (if audioRef s \<noteq> None then [ElementPause] else [])
   @ (case audioSourceRef s of Some n \<Rightarrow> [SourceDisconnect n] | None \<Rightarrow> [])
   @ (case analyserRef s of Some a \<Rightarrow> [AnalyserDisconnect] | None \<Rightarrow> [])
   @ (case audioContextRef s of Some c \<Rightarrow> [ContextClose c] | None \<Rightarrow> [])
   @ (case animationFrameRef s of Some h \<Rightarrow> if h = 0 then [] else [CancelAnimationFrame h] | None \<Rightarrow> [])"

text \<open>
  The browser calls of lines 125-143 for a context numbered \<open>c\<close>: context, analyser,
  element, object URL, \<open>src\<close>, source node, the two connections.
\<close>

definition construct_calls :: "nat \<Rightarrow> effect list" where
  "construct_calls c =
     [NewAudioContext c, CreateAnalyser, NewAudio, CreateObjectURL (Suc c), ElementSetSrc (Suc c),
      CreateMediaElementSource (Suc (Suc c)), ConnectSourceToAnalyser,
      ConnectAnalyserToDestination]"

text \<open>How often the sampler has published: \<open>animate\<close> requests a frame each time it does.\<close>

fun is_sampler_call :: "effect \<Rightarrow> bool" where
  "is_sampler_call (RequestAnimationFrame h) = True"
| "is_sampler_call _ = False"

definition sampler_publications :: "state \<Rightarrow> nat" where
  "sampler_publications s = length (filter is_sampler_call (trace s))"

subsection \<open>The invariant of the event loop\<close>

text \<open>
  \<open>sim running q\<close> replays a queue of element events against the sampler: a \<open>play\<close>
  event starts the loop and must find it stopped, \<open>pause\<close> and \<open>ended\<close> stop it. The
  result is \<open>None\<close> when some \<open>play\<close> event would find the loop running, and otherwise
  tells whether the loop runs once the queue is empty.
\<close>

fun sim :: "bool \<Rightarrow> signal list \<Rightarrow> bool option" where
  "sim b [] = Some b"
| "sim b (Play # q) = (if b then None else sim True q)"
| "sim b (Pause # q) = sim False q"
| "sim b (Ended # q) = sim False q"

definition queue_ok :: "bool \<Rightarrow> bool \<Rightarrow> signal list \<Rightarrow> bool" where
  "queue_ok running is_paused q =
     (case sim running q of None \<Rightarrow> False | Some r \<Rightarrow> \<not> (is_paused \<and> r))"

definition el_paused :: "state \<Rightarrow> bool" where
  "el_paused s = (case audioRef s of None \<Rightarrow> True | Some el \<Rightarrow> paused el)"

definition idle :: "state \<Rightarrow> bool" where
  "idle s \<longleftrightarrow> audioRef s = None \<and> audioContextRef s = None \<and> analyserRef s = None
     \<and> audioSourceRef s = None \<and> currentAudioUrlRef s = None \<and> open_contexts s = []
     \<and> live_urls s = [] \<and> pending_frames s = [] \<and> events s = []"

definition inv_frames :: "state \<Rightarrow> bool" where
  "inv_frames s \<longleftrightarrow> 0 < fresh s \<and> animationFrameRef s \<noteq> Some 0
     \<and> set (pending_frames s) \<subseteq> set_option (animationFrameRef s)"

definition inv_heap :: "state \<Rightarrow> bool" where
  "inv_heap s \<longleftrightarrow> (\<forall>a. audioData s = Some a \<longrightarrow> a < length (heap s))"

definition inv_graph :: "state \<Rightarrow> bool" where
  "inv_graph s \<longleftrightarrow>
     (if audioRef s = None then idle s
      else analyserRef s = Some \<lparr>fftSize = 256\<rparr>
          \<and> (\<exists>b. one_graph_for b s))"

definition inv_queue :: "state \<Rightarrow> bool" where
  "inv_queue s \<longleftrightarrow> queue_ok (pending_frames s \<noteq> []) (el_paused s) (events s)"

definition inv :: "state \<Rightarrow> bool" where
  "inv s \<longleftrightarrow> inv_frames s \<and> inv_heap s \<and> inv_graph s \<and> inv_queue s"

subsection \<open>Payloads and states used as examples\<close>

text \<open>
  Two clips, the two empty payloads, a live frame; then states written out in full. The
  first four are arbitrary states for the branches of \<open>togglePlayback\<close>; the others are
  the states of one run, shown reachable below: \<open>clipA\<close> submitted to the initial state
  (\<open>st_loaded\<close>), its \<open>play\<close> event dispatched with all magnitudes \<open>7\<close> (\<open>st_live\<close>),
  the clip at its end (\<open>st_ended\<close>), the \<open>pause\<close> event dispatched (\<open>st_ending\<close>).
\<close>

definition clipA :: blob where
  "clipA = \<lparr>blob_type = ''audio/mpeg'', blob_bytes = [1, 2, 3]\<rparr>"

definition clipB :: blob where
  "clipB = \<lparr>blob_type = ''audio/wav'', blob_bytes = [4, 5]\<rparr>"



definition frame123 :: blob where
  "frame123 = \<lparr>blob_type = ''application/octet-stream'', blob_bytes = [10, 20, 30]\<rparr>"

definition st_playing :: state where
  "st_playing = init\<lparr>audioRef := Some \<lparr>src = Some 2, currentTime = 9, paused = False\<rparr>,
     currentAudioUrlRef := Some 2, isPlaying := True\<rparr>"

definition st_paused :: state where
  "st_paused = init\<lparr>audioRef := Some \<lparr>src = Some 2, currentTime = 9, paused = True\<rparr>,
     currentAudioUrlRef := Some 2\<rparr>"

definition st_unbound :: state where
  "st_unbound = init\<lparr>audioRef := Some \<lparr>src = None, currentTime = 0, paused = True\<rparr>,
     currentAudioUrlRef := Some 2\<rparr>"

definition st_empty_element :: state where
  "st_empty_element = init\<lparr>audioRef := Some \<lparr>src = None, currentTime = 0, paused = True\<rparr>\<rparr>"

definition st_loaded :: state where
  "st_loaded = \<lparr>audioData = None, isPlaying = False, audioContextRef = Some 1,
     analyserRef = Some \<lparr>fftSize = 256\<rparr>, audioSourceRef = Some 3, animationFrameRef = None,
     audioRef = Some \<lparr>src = Some 2, currentTime = 0, paused = False\<rparr>,
     currentAudioUrlRef = Some 2, heap = [], open_contexts = [1], live_urls = [(2, clipA)],
     pending_frames = [], events = [Play], fresh = 4,
     trace = [NewAudioContext 1, CreateAnalyser, NewAudio, CreateObjectURL 2, ElementSetSrc 2,
       CreateMediaElementSource 3, ConnectSourceToAnalyser, ConnectAnalyserToDestination,
       ElementPlay]\<rparr>"

definition st_live :: state where
  "st_live = st_loaded\<lparr>audioData := Some 0, isPlaying := True, animationFrameRef := Some 4,
     heap := [replicate 128 7], pending_frames := [4], events := [], fresh := 5,
     trace := trace st_loaded @ [RequestAnimationFrame 4]\<rparr>"

definition st_ended :: state where
  "st_ended = st_live\<lparr>audioRef := Some \<lparr>src = Some 2, currentTime = 9, paused = True\<rparr>,
     events := [Pause, Ended]\<rparr>"

definition st_ending :: state where
  "st_ending = st_live\<lparr>audioData := None, isPlaying := False, animationFrameRef := None,
     audioRef := Some \<lparr>src = Some 2, currentTime = 9, paused = True\<rparr>,
     pending_frames := [], events := [Ended],
     trace := trace st_live @ [CancelAnimationFrame 4]\<rparr>"

text \<open>
  Four runs from the initial state, \<open>await\<close> by \<open>await\<close>.
  \<^item> \<open>overlapping\<close>: two clips submitted one right after the other, as by
    \<open>onAudioResponse(a); onAudioResponse(b)\<close>. Each call stops at line 118; then the
    first is resumed, then the second.
  \<^item> \<open>stale_frame\<close>: after that, the \<open>play\<close> events of the two elements are dispatched,
    the toggle is pressed and the \<open>pause\<close> event is dispatched.
  \<^item> \<open>unmounted\<close>: one clip is submitted and starts to play, then the component
    unmounts.
  \<^item> \<open>late_rejection\<close>: one clip is submitted, its \<open>play\<close> event is dispatched, and
    then the promise of \<open>play()\<close> is rejected, as it is for a blob that the browser
    cannot decode.
\<close>

definition overlapping :: "event list" where
  "overlapping = [Call (Some clipA), Call (Some clipB), Resume 0 True, Resume 1 True]"

definition stale_frame :: "event list" where
  "stale_frame = overlapping @ [Handle (Deliver Play (\<lambda>_. 7)), Handle (Deliver Play (\<lambda>_. 7)),
     Handle (Toggle True), Handle (Deliver Pause (\<lambda>_. 7))]"

definition unmounted :: "event list" where
  "unmounted = [Call (Some clipA), Resume 0 True, Resume 0 True, Unmount]"

definition late_rejection :: "event list" where
  "late_rejection = [Call (Some clipA), Resume 0 True, Handle (Deliver Play (\<lambda>_. 7)),
     Resume 0 False]"

section \<open>Every reachable state satisfies the invariant\<close>

subsection \<open>Replaying the event queue\<close>

lemma sim_append: "sim b (q @ r) = (case sim b q of None \<Rightarrow> None | Some b' \<Rightarrow> sim b' r)"
proof (induction q arbitrary: b)
  case Nil
  then show ?case by simp
next
  case (Cons e q)
  then show ?case by (cases e) simp_all
qed

lemma sim_False:
  assumes "sim b q = Some b'"
  shows "\<exists>b''. sim False q = Some b'' \<and> (b'' \<longrightarrow> b')"
proof (cases q)
  case Nil
  with assms show ?thesis by (intro exI [of _ False]) simp
next
  case (Cons e r)
  with assms show ?thesis by (cases e) (auto split: if_splits)
qed

lemma queue_ok_stopped: "queue_ok r p q \<Longrightarrow> queue_ok False p q"
  by (auto simp: queue_ok_def split: option.splits dest: sim_False)

lemma queue_ok_unpaused: "queue_ok r p q \<Longrightarrow> queue_ok r False q"
  by (auto simp: queue_ok_def split: option.splits)

lemma queue_ok_pause: "queue_ok r p q \<Longrightarrow> queue_ok r p' (q @ [Pause])"
  by (auto simp: queue_ok_def sim_append split: option.splits)

lemma queue_ok_pause_ended: "queue_ok r p q \<Longrightarrow> queue_ok r p' (q @ [Pause, Ended])"
  by (auto simp: queue_ok_def sim_append split: option.splits)

lemma queue_ok_play: "queue_ok r True q \<Longrightarrow> queue_ok r False (q @ [Play])"
  by (auto simp: queue_ok_def sim_append split: option.splits)

lemma queue_ok_pop_play: "queue_ok r p (Play # q) \<Longrightarrow> \<not> r \<and> queue_ok True p q"
  by (auto simp: queue_ok_def split: option.splits if_splits)

lemma queue_ok_pop_pause: "queue_ok r p (Pause # q) \<Longrightarrow> queue_ok False p q"
  by (auto simp: queue_ok_def split: option.splits if_splits)

lemma queue_ok_pop_ended: "queue_ok r p (Ended # q) \<Longrightarrow> queue_ok False p q"
  by (auto simp: queue_ok_def split: option.splits if_splits)

subsection \<open>Reading the invariant\<close>

lemma one_graph_for_iff:
  "one_graph_for b s \<longleftrightarrow>
     (\<exists>c a n u el. audioContextRef s = Some c \<and> open_contexts s = [c] \<and> analyserRef s = Some a
        \<and> audioSourceRef s = Some n \<and> currentAudioUrlRef s = Some u \<and> live_urls s = [(u, b)]
        \<and> audioRef s = Some el \<and> src el = Some u)"
  by (auto simp: one_graph_for_def split: option.splits)

lemma inv_fields:
  assumes "fresh s' = fresh s" "animationFrameRef s' = animationFrameRef s"
    "pending_frames s' = pending_frames s" "audioData s' = audioData s" "heap s' = heap s"
    "audioRef s' = audioRef s" "analyserRef s' = analyserRef s"
    "audioContextRef s' = audioContextRef s" "audioSourceRef s' = audioSourceRef s"
    "currentAudioUrlRef s' = currentAudioUrlRef s" "open_contexts s' = open_contexts s"
    "live_urls s' = live_urls s" "events s' = events s"
  shows "inv s' = inv s"
  using assms
  by (simp add: inv_def inv_frames_def inv_heap_def inv_graph_def inv_queue_def idle_def
      el_paused_def one_graph_for_iff)

lemma invI: "inv_frames s \<Longrightarrow> inv_heap s \<Longrightarrow> inv_graph s \<Longrightarrow> inv_queue s \<Longrightarrow> inv s"
  by (simp add: inv_def)

lemma inv_frames_fields:
  "fresh s' = fresh s \<Longrightarrow> animationFrameRef s' = animationFrameRef s \<Longrightarrow>
   pending_frames s' = pending_frames s \<Longrightarrow> inv_frames s' = inv_frames s"
  by (simp add: inv_frames_def)

lemma inv_heap_fields:
  "audioData s' = audioData s \<Longrightarrow> heap s' = heap s \<Longrightarrow> inv_heap s' = inv_heap s"
  by (simp add: inv_heap_def)

lemma inv_graph_fields:
  assumes "audioRef s' = audioRef s" "analyserRef s' = analyserRef s"
    "audioContextRef s' = audioContextRef s" "audioSourceRef s' = audioSourceRef s"
    "currentAudioUrlRef s' = currentAudioUrlRef s" "open_contexts s' = open_contexts s"
    "live_urls s' = live_urls s" "pending_frames s' = pending_frames s" "events s' = events s"
  shows "inv_graph s' = inv_graph s"
  using assms by (simp add: inv_graph_def idle_def one_graph_for_iff)

lemma inv_queue_fields:
  assumes "audioRef s' = audioRef s" "pending_frames s' = pending_frames s" "events s' = events s"
  shows "inv_queue s' = inv_queue s"
  using assms by (simp add: inv_queue_def el_paused_def)

lemma inv_graph_src:
  assumes "inv_graph s" "audioRef s = Some el"
  shows "src el = currentAudioUrlRef s \<and> currentAudioUrlRef s \<noteq> None"
  using assms
  by (auto simp: inv_graph_def one_graph_for_iff)

lemma inv_queue_el:
  "inv s \<Longrightarrow> audioRef s = Some el \<Longrightarrow> queue_ok (pending_frames s \<noteq> []) (paused el) (events s)"
  by (simp add: inv_def inv_queue_def el_paused_def)

lemma removeAll_only: "set xs \<subseteq> {x} \<Longrightarrow> removeAll x xs = []"
  by (induction xs) auto

lemma inv_init: "inv init"
  by (simp add: inv_def inv_frames_def inv_heap_def inv_graph_def inv_queue_def idle_def init_def queue_ok_def el_paused_def)

lemma inv_emit: "inv (emit e s) = inv s"
  by (rule inv_fields) (simp_all add: emit_def)

lemma inv_set_state: "inv (s\<lparr>isPlaying := b\<rparr>) = inv s"
  by (rule inv_fields) simp_all

lemma inv_clear_audioData:
  assumes i: "inv s" shows "inv (s\<lparr>audioData := None\<rparr>)"
proof (rule invI)
  from i show "inv_frames (s\<lparr>audioData := None\<rparr>)"
    by (simp add: inv_def inv_frames_def)
  show "inv_heap (s\<lparr>audioData := None\<rparr>)"
    by (simp add: inv_heap_def)
  from i show "inv_graph (s\<lparr>audioData := None\<rparr>)"
    using inv_graph_fields [of "s\<lparr>audioData := None\<rparr>" s] by (simp add: inv_def)
  from i show "inv_queue (s\<lparr>audioData := None\<rparr>)"
    using inv_queue_fields [of "s\<lparr>audioData := None\<rparr>" s] by (simp add: inv_def)
qed

subsection \<open>Calls on the element\<close>

text \<open>An update of the element that keeps its \<open>src\<close>.\<close>

lemma inv_graph_element:
  assumes "inv_graph s" "audioRef s = Some el" "src el' = src el"
  shows "inv_graph (s\<lparr>audioRef := Some el', events := q\<rparr>)"
  using assms by (auto simp: inv_graph_def one_graph_for_iff)

lemma inv_element:
  assumes i: "inv s" and el: "audioRef s = Some el" and sr: "src el' = src el"
    and q: "queue_ok (pending_frames s \<noteq> []) (paused el') q"
  shows "inv (s\<lparr>audioRef := Some el', events := q\<rparr>)"
proof (rule invI)
  from i show "inv_frames (s\<lparr>audioRef := Some el', events := q\<rparr>)"
    by (simp add: inv_def inv_frames_def)
  from i show "inv_heap (s\<lparr>audioRef := Some el', events := q\<rparr>)"
    by (simp add: inv_def inv_heap_def)
  from i el sr show "inv_graph (s\<lparr>audioRef := Some el', events := q\<rparr>)"
    by (simp add: inv_def inv_graph_element)
  from q show "inv_queue (s\<lparr>audioRef := Some el', events := q\<rparr>)"
    by (simp add: inv_queue_def el_paused_def)
qed

lemma inv_el_pause: "inv s \<Longrightarrow> inv (el_pause s)"
proof (cases "audioRef s")
  case None
  assume "inv s"
  with None show ?thesis by (simp add: el_pause_def)
next
  case (Some el)
  assume i: "inv s"
  show ?thesis
  proof (cases "paused el")
    case True
    with Some have "el_pause s = emit ElementPause s" by (simp add: el_pause_def)
    with i show ?thesis by (simp add: inv_emit)
  next
    case False
    let ?s' = "s\<lparr>audioRef := Some (el\<lparr>paused := True\<rparr>), events := events s @ [Pause]\<rparr>"
    from Some False have e: "el_pause s = emit ElementPause ?s'" by (simp add: el_pause_def)
    have "queue_ok (pending_frames s \<noteq> []) (paused (el\<lparr>paused := True\<rparr>)) (events s @ [Pause])"
      by (rule queue_ok_pause [OF inv_queue_el [OF i Some]])
    with i Some have "inv ?s'" by (intro inv_element) simp_all
    then show ?thesis by (simp add: e inv_emit)
  qed
qed

lemma inv_el_play: "inv s \<Longrightarrow> inv (el_play allowed s)"
proof (cases "audioRef s")
  case None
  assume "inv s"
  with None show ?thesis by (simp add: el_play_def)
next
  case (Some el)
  assume i: "inv s"
  show ?thesis
  proof (cases "allowed \<and> paused el")
    case False
    with Some have "el_play allowed s = emit ElementPlay s" by (auto simp: el_play_def)
    with i show ?thesis by (simp add: inv_emit)
  next
    case True
    let ?s' = "s\<lparr>audioRef := Some (el\<lparr>paused := False\<rparr>), events := events s @ [Play]\<rparr>"
    from Some True have e: "el_play allowed s = emit ElementPlay ?s'" by (simp add: el_play_def)
    from inv_queue_el [OF i Some] True
    have "queue_ok (pending_frames s \<noteq> []) (paused (el\<lparr>paused := False\<rparr>)) (events s @ [Play])"
      by (simp add: queue_ok_play)
    with i Some have "inv ?s'" by (intro inv_element) simp_all
    then show ?thesis by (simp add: e inv_emit)
  qed
qed

lemma inv_el_set_currentTime: "inv s \<Longrightarrow> inv (el_set_currentTime t s)"
proof (cases "audioRef s")
  case None
  assume "inv s"
  with None show ?thesis by (simp add: el_set_currentTime_def)
next
  case (Some el)
  assume i: "inv s"
  let ?s' = "s\<lparr>audioRef := Some (el\<lparr>currentTime := t\<rparr>), events := events s\<rparr>"
  from Some have e: "el_set_currentTime t s = emit (ElementSetCurrentTime t) ?s'"
    by (simp add: el_set_currentTime_def)
  from inv_queue_el [OF i Some]
  have "queue_ok (pending_frames s \<noteq> []) (paused (el\<lparr>currentTime := t\<rparr>)) (events s)"
    by simp
  with i Some have "inv ?s'" by (intro inv_element) simp_all
  then show ?thesis by (simp add: e inv_emit)
qed

lemma inv_play_logged: "inv s \<Longrightarrow> inv (play_logged allowed s)"
  by (simp add: play_logged_def inv_emit inv_el_play)

lemma inv_togglePlayback: "inv s \<Longrightarrow> inv (togglePlayback allowed s)"
proof (cases "audioRef s")
  case None
  assume "inv s"
  with None show ?thesis by (simp add: togglePlayback_def)
next
  case (Some el)
  assume i: "inv s"
  then have "inv_graph s" by (simp add: inv_def)
  from inv_graph_src [OF this Some] have "src el \<noteq> None" by simp
  with Some have "togglePlayback allowed s =
      (if isPlaying s then el_pause s else play_logged allowed (el_set_currentTime 0 s))"
    by (auto simp: togglePlayback_def)
  with i show ?thesis by (simp add: inv_el_pause inv_play_logged inv_el_set_currentTime)
qed

lemma inv_play_catch: "inv s \<Longrightarrow> inv (play_catch s)"
proof -
  assume "inv s"
  then have "inv ((emit ConsoleError s)\<lparr>audioData := None\<rparr>)"
    by (simp add: inv_clear_audioData inv_emit)
  moreover have "play_catch s = ((emit ConsoleError s)\<lparr>audioData := None\<rparr>)\<lparr>isPlaying := False\<rparr>"
    by (simp add: play_catch_def emit_def)
  ultimately show ?thesis by (simp only: inv_set_state)
qed

subsection \<open>Animation frames and element events\<close>

text \<open>Cancelling the stored frame leaves no frame pending.\<close>

lemma cancel_pending:
  "inv_frames s \<Longrightarrow> pending_frames (cancel_stored_frame s) = []"
  by (auto simp: inv_frames_def cancel_stored_frame_def emit_def removeAll_only split: option.splits)

lemma cancel_fields:
  "audioData (cancel_stored_frame s) = audioData s"
  "heap (cancel_stored_frame s) = heap s"
  "audioRef (cancel_stored_frame s) = audioRef s"
  "analyserRef (cancel_stored_frame s) = analyserRef s"
  "audioContextRef (cancel_stored_frame s) = audioContextRef s"
  "audioSourceRef (cancel_stored_frame s) = audioSourceRef s"
  "currentAudioUrlRef (cancel_stored_frame s) = currentAudioUrlRef s"
  "open_contexts (cancel_stored_frame s) = open_contexts s"
  "live_urls (cancel_stored_frame s) = live_urls s"
  "events (cancel_stored_frame s) = events s"
  "fresh (cancel_stored_frame s) = fresh s"
  "isPlaying (cancel_stored_frame s) = isPlaying s"
  by (simp_all add: cancel_stored_frame_def emit_def split: option.splits)

lemma cancel_ref:
  "inv_frames s \<Longrightarrow> animationFrameRef (cancel_stored_frame s) = None"
  by (auto simp: inv_frames_def cancel_stored_frame_def emit_def split: option.splits)

lemma cancel_cong:
  assumes "animationFrameRef s' = animationFrameRef s" "pending_frames s' = pending_frames s"
  shows "pending_frames (cancel_stored_frame s') = pending_frames (cancel_stored_frame s)"
    "animationFrameRef (cancel_stored_frame s') = animationFrameRef (cancel_stored_frame s)"
  using assms by (simp_all add: cancel_stored_frame_def emit_def split: option.splits)

lemma cancel_trace:
  "trace (cancel_stored_frame s) =
     trace s @ (case animationFrameRef s of
                  Some h \<Rightarrow> if h = 0 then [] else [CancelAnimationFrame h] | None \<Rightarrow> [])"
  by (simp add: cancel_stored_frame_def emit_def split: option.splits)

lemma inv_cancel_weak:
  assumes f: "inv_frames s" and h: "inv_heap s" and g: "inv_graph s"
    and q: "queue_ok False (el_paused s) (events s)"
  shows "inv (cancel_stored_frame s)"
proof (rule invI)
  from f show "inv_frames (cancel_stored_frame s)"
    by (auto simp: inv_frames_def cancel_stored_frame_def emit_def split: option.splits)
  from h show "inv_heap (cancel_stored_frame s)"
    by (simp add: inv_heap_def cancel_fields)
  from g f show "inv_graph (cancel_stored_frame s)"
    by (auto simp: inv_graph_def idle_def one_graph_for_iff cancel_fields cancel_pending)
  from q f show "inv_queue (cancel_stored_frame s)"
    by (simp add: inv_queue_def cancel_pending el_paused_def cancel_fields)
qed

lemma inv_cancel:
  assumes i: "inv s" shows "inv (cancel_stored_frame s)"
proof -
  from i have q: "queue_ok False (el_paused s) (events s)"
    by (auto simp: inv_def inv_queue_def intro: queue_ok_stopped)
  show ?thesis by (rule inv_cancel_weak) (use i q in \<open>simp_all add: inv_def\<close>)
qed

lemma inv_on_pause: "inv s \<Longrightarrow> inv (on_pause s)"
  by (simp add: on_pause_def inv_clear_audioData inv_cancel inv_set_state)

lemma inv_on_ended: "inv s \<Longrightarrow> inv (on_ended s)"
proof -
  assume "inv s"
  then have "inv ((cancel_stored_frame s)\<lparr>audioData := None\<rparr>)"
    by (simp add: inv_clear_audioData inv_cancel)
  moreover have "on_ended s = ((cancel_stored_frame s)\<lparr>audioData := None\<rparr>)\<lparr>isPlaying := False\<rparr>"
    by (simp add: on_ended_def)
  ultimately show ?thesis by (simp only: inv_set_state)
qed

lemma animate_None: "analyserRef s = None \<Longrightarrow> animate f s = s"
  by (simp add: animate_def)

lemma animate_fields:
  "audioRef (animate f s) = audioRef s"
  "analyserRef (animate f s) = analyserRef s"
  "audioContextRef (animate f s) = audioContextRef s"
  "audioSourceRef (animate f s) = audioSourceRef s"
  "currentAudioUrlRef (animate f s) = currentAudioUrlRef s"
  "open_contexts (animate f s) = open_contexts s"
  "live_urls (animate f s) = live_urls s"
  "events (animate f s) = events s"
  "isPlaying (animate f s) = isPlaying s"
  by (simp_all add: animate_def setAudioData_new_def emit_def Let_def split: option.splits)

lemma animate_Some:
  assumes "analyserRef s = Some a"
  shows "pending_frames (animate f s) = pending_frames s @ [fresh s]"
    "animationFrameRef (animate f s) = Some (fresh s)"
    "fresh (animate f s) = Suc (fresh s)"
    "audioData (animate f s) = Some (length (heap s))"
    "heap (animate f s) = heap s @ [getByteFrequencyData f a (replicate (frequencyBinCount a) 0)]"
    "trace (animate f s) = trace s @ [RequestAnimationFrame (fresh s)]"
  using assms by (simp_all add: animate_def setAudioData_new_def emit_def Let_def)

lemma inv_animate:
  assumes f: "inv_frames s" and p: "pending_frames s = []" and h: "inv_heap s"
    and g: "inv_graph s" and q: "queue_ok True (el_paused s) (events s)"
  shows "inv (animate f s)"
proof (cases "analyserRef s")
  case None
  from q have "queue_ok False (el_paused s) (events s)" by (rule queue_ok_stopped)
  with p have "inv_queue s" by (simp add: inv_queue_def)
  with f h g None show ?thesis by (simp add: animate_None inv_def)
next
  case (Some a)
  show ?thesis
  proof (rule invI)
    from f p show "inv_frames (animate f s)"
      by (simp add: inv_frames_def animate_Some [OF Some])
    show "inv_heap (animate f s)"
      by (simp add: inv_heap_def animate_Some [OF Some])
    from g Some show "inv_graph (animate f s)"
      by (auto simp: inv_graph_def idle_def one_graph_for_iff animate_fields split: if_splits)
    from q show "inv_queue (animate f s)"
      by (simp add: inv_queue_def el_paused_def animate_fields animate_Some [OF Some])
  qed
qed

lemma pending_stored:
  assumes "inv_frames s" "h \<in> set (pending_frames s)"
  shows "animationFrameRef s = Some h" "removeAll h (pending_frames s) = []"
proof -
  from assms show a: "animationFrameRef s = Some h"
    by (cases "animationFrameRef s") (auto simp: inv_frames_def)
  with assms show "removeAll h (pending_frames s) = []"
    by (intro removeAll_only) (simp add: inv_frames_def)
qed

lemma inv_frame_fires:
  assumes i: "inv s" and s: "frame_fires h f s = Some s'"
  shows "inv s'"
proof -
  from s have m: "h \<in> set (pending_frames s)"
    and e: "s' = animate f (s\<lparr>pending_frames := removeAll h (pending_frames s)\<rparr>)"
    by (auto simp: frame_fires_def split: if_splits)
  from i m have r: "removeAll h (pending_frames s) = []"
    by (simp add: inv_def pending_stored)
  from m have ne: "pending_frames s \<noteq> []" by auto
  let ?s1 = "s\<lparr>pending_frames := []\<rparr>"
  have "inv (animate f ?s1)"
  proof (rule inv_animate)
    from i show "inv_frames ?s1" by (simp add: inv_def inv_frames_def)
    show "pending_frames ?s1 = []" by simp
    from i show "inv_heap ?s1" by (simp add: inv_def inv_heap_def)
    from i ne show "inv_graph ?s1"
      by (auto simp: inv_def inv_graph_def idle_def one_graph_for_iff)
    from i ne show "queue_ok True (el_paused ?s1) (events ?s1)"
      by (simp add: inv_def inv_queue_def el_paused_def)
  qed
  with e r show ?thesis by simp
qed

lemma inv_deliver:
  assumes i: "inv s" and s: "step (Deliver sig f) s = Some s'"
  shows "inv s'"
proof -
  from s obtain q where ev: "events s = sig # q" and e: "s' = dispatch sig f (s\<lparr>events := q\<rparr>)"
    by (auto split: list.splits if_splits)
  let ?s1 = "s\<lparr>events := q\<rparr>"
  from ev i have ar: "audioRef s \<noteq> None"
    by (auto simp: inv_def inv_graph_def idle_def split: if_splits)
  from i have f1: "inv_frames ?s1" by (simp add: inv_def inv_frames_def)
  from i have h1: "inv_heap ?s1" by (simp add: inv_def inv_heap_def)
  from i ar have g1: "inv_graph ?s1" by (auto simp: inv_def inv_graph_def one_graph_for_iff)
  from i ev have qk: "queue_ok (pending_frames s \<noteq> []) (el_paused s) (sig # q)"
    by (simp add: inv_def inv_queue_def)
  show ?thesis
  proof (cases sig)
    case Play
    from qk Play have p: "pending_frames s = []" and q1: "queue_ok True (el_paused s) q"
      by (auto dest: queue_ok_pop_play)
    let ?s2 = "?s1\<lparr>isPlaying := True\<rparr>"
    have "inv (animate f ?s2)"
    proof (rule inv_animate)
      from f1 show "inv_frames ?s2" by (simp add: inv_frames_def)
      from p show "pending_frames ?s2 = []" by simp
      from h1 show "inv_heap ?s2" by (simp add: inv_heap_def)
      from g1 show "inv_graph ?s2" by (auto simp: inv_graph_def idle_def one_graph_for_iff)
      from q1 show "queue_ok True (el_paused ?s2) (events ?s2)" by (simp add: el_paused_def)
    qed
    with e Play show ?thesis by (simp add: dispatch_def on_play_def)
  next
    case Pause
    from qk Pause have q1: "queue_ok False (el_paused s) q" by (auto dest: queue_ok_pop_pause)
    let ?s2 = "?s1\<lparr>isPlaying := False\<rparr>"
    have "inv (cancel_stored_frame ?s2)"
    proof (rule inv_cancel_weak)
      from f1 show "inv_frames ?s2" by (simp add: inv_frames_def)
      from h1 show "inv_heap ?s2" by (simp add: inv_heap_def)
      from g1 show "inv_graph ?s2" by (auto simp: inv_graph_def idle_def one_graph_for_iff)
      from q1 show "queue_ok False (el_paused ?s2) (events ?s2)" by (simp add: el_paused_def)
    qed
    then have "inv ((cancel_stored_frame ?s2)\<lparr>audioData := None\<rparr>)" by (rule inv_clear_audioData)
    with e Pause show ?thesis by (simp add: dispatch_def on_pause_def)
  next
    case Ended
    from qk Ended have q1: "queue_ok False (el_paused s) q" by (auto dest: queue_ok_pop_ended)
    have "inv (cancel_stored_frame ?s1)"
    proof (rule inv_cancel_weak)
      from q1 show "queue_ok False (el_paused ?s1) (events ?s1)" by (simp add: el_paused_def)
    qed (rule f1 h1 g1)+
    then have "inv ((cancel_stored_frame ?s1)\<lparr>audioData := None\<rparr>)" by (rule inv_clear_audioData)
    moreover have "on_ended ?s1 = ((cancel_stored_frame ?s1)\<lparr>audioData := None\<rparr>)\<lparr>isPlaying := False\<rparr>"
      by (simp add: on_ended_def)
    ultimately have "inv (on_ended ?s1)" by (simp only: inv_set_state)
    with e Ended show ?thesis by (simp add: dispatch_def)
  qed
qed

lemma inv_end_of_clip:
  assumes i: "inv s" and s: "step (EndOfClip t) s = Some s'"
  shows "inv s'"
proof -
  from s obtain el where el: "audioRef s = Some el" and np: "\<not> paused el"
    and e: "s' = s\<lparr>audioRef := Some (el\<lparr>currentTime := t, paused := True\<rparr>),
                    events := events s @ [Pause, Ended]\<rparr>"
    by (auto split: option.splits if_splits)
  have "queue_ok (pending_frames s \<noteq> []) (paused (el\<lparr>currentTime := t, paused := True\<rparr>))
          (events s @ [Pause, Ended])"
    by (rule queue_ok_pause_ended [OF inv_queue_el [OF i el]])
  with i el have "inv (s\<lparr>audioRef := Some (el\<lparr>currentTime := t, paused := True\<rparr>),
                    events := events s @ [Pause, Ended]\<rparr>)"
    by (intro inv_element) simp_all
  with e show ?thesis by simp
qed

subsection \<open>Teardown\<close>

lemma el_pause_fields:
  "audioData (el_pause s) = audioData s"
  "isPlaying (el_pause s) = isPlaying s"
  "audioContextRef (el_pause s) = audioContextRef s"
  "analyserRef (el_pause s) = analyserRef s"
  "audioSourceRef (el_pause s) = audioSourceRef s"
  "animationFrameRef (el_pause s) = animationFrameRef s"
  "currentAudioUrlRef (el_pause s) = currentAudioUrlRef s"
  "heap (el_pause s) = heap s"
  "open_contexts (el_pause s) = open_contexts s"
  "live_urls (el_pause s) = live_urls s"
  "pending_frames (el_pause s) = pending_frames s"
  "fresh (el_pause s) = fresh s"
  by (simp_all add: el_pause_def emit_def split: option.splits)

lemma el_play_fields:
  "audioData (el_play a s) = audioData s"
  "isPlaying (el_play a s) = isPlaying s"
  "audioContextRef (el_play a s) = audioContextRef s"
  "analyserRef (el_play a s) = analyserRef s"
  "audioSourceRef (el_play a s) = audioSourceRef s"
  "animationFrameRef (el_play a s) = animationFrameRef s"
  "currentAudioUrlRef (el_play a s) = currentAudioUrlRef s"
  "heap (el_play a s) = heap s"
  "open_contexts (el_play a s) = open_contexts s"
  "live_urls (el_play a s) = live_urls s"
  "pending_frames (el_play a s) = pending_frames s"
  "fresh (el_play a s) = fresh s"
  by (simp_all add: el_play_def emit_def split: option.splits)

lemma pause_element_fields:
  "audioData (pause_element s) = audioData s"
  "isPlaying (pause_element s) = isPlaying s"
  "audioContextRef (pause_element s) = audioContextRef s"
  "analyserRef (pause_element s) = analyserRef s"
  "audioSourceRef (pause_element s) = audioSourceRef s"
  "animationFrameRef (pause_element s) = animationFrameRef s"
  "currentAudioUrlRef (pause_element s) = currentAudioUrlRef s"
  "heap (pause_element s) = heap s"
  "open_contexts (pause_element s) = open_contexts s"
  "live_urls (pause_element s) = live_urls s"
  "pending_frames (pause_element s) = pending_frames s"
  "fresh (pause_element s) = fresh s"
  by (simp_all add: pause_element_def el_pause_fields split: option.splits)

lemma disconnect_source_fields:
  "audioData (disconnect_source s) = audioData s"
  "isPlaying (disconnect_source s) = isPlaying s"
  "audioContextRef (disconnect_source s) = audioContextRef s"
  "analyserRef (disconnect_source s) = analyserRef s"
  "animationFrameRef (disconnect_source s) = animationFrameRef s"
  "audioRef (disconnect_source s) = audioRef s"
  "currentAudioUrlRef (disconnect_source s) = currentAudioUrlRef s"
  "heap (disconnect_source s) = heap s"
  "open_contexts (disconnect_source s) = open_contexts s"
  "live_urls (disconnect_source s) = live_urls s"
  "pending_frames (disconnect_source s) = pending_frames s"
  "events (disconnect_source s) = events s"
  "fresh (disconnect_source s) = fresh s"
  by (simp_all add: disconnect_source_def emit_def split: option.splits)

lemma disconnect_analyser_fields:
  "audioData (disconnect_analyser s) = audioData s"
  "isPlaying (disconnect_analyser s) = isPlaying s"
  "audioContextRef (disconnect_analyser s) = audioContextRef s"
  "audioSourceRef (disconnect_analyser s) = audioSourceRef s"
  "animationFrameRef (disconnect_analyser s) = animationFrameRef s"
  "audioRef (disconnect_analyser s) = audioRef s"
  "currentAudioUrlRef (disconnect_analyser s) = currentAudioUrlRef s"
  "heap (disconnect_analyser s) = heap s"
  "open_contexts (disconnect_analyser s) = open_contexts s"
  "live_urls (disconnect_analyser s) = live_urls s"
  "pending_frames (disconnect_analyser s) = pending_frames s"
  "events (disconnect_analyser s) = events s"
  "fresh (disconnect_analyser s) = fresh s"
  by (simp_all add: disconnect_analyser_def emit_def split: option.splits)

lemma revoke_previous_fields:
  "audioData (revoke_previous s) = audioData s"
  "isPlaying (revoke_previous s) = isPlaying s"
  "audioContextRef (revoke_previous s) = audioContextRef s"
  "analyserRef (revoke_previous s) = analyserRef s"
  "audioSourceRef (revoke_previous s) = audioSourceRef s"
  "animationFrameRef (revoke_previous s) = animationFrameRef s"
  "audioRef (revoke_previous s) = audioRef s"
  "currentAudioUrlRef (revoke_previous s) = currentAudioUrlRef s"
  "heap (revoke_previous s) = heap s"
  "open_contexts (revoke_previous s) = open_contexts s"
  "pending_frames (revoke_previous s) = pending_frames s"
  "events (revoke_previous s) = events s"
  "fresh (revoke_previous s) = fresh s"
  by (simp_all add: revoke_previous_def emit_def split: option.splits)

lemma play_catch_fields:
  "audioContextRef (play_catch s) = audioContextRef s"
  "analyserRef (play_catch s) = analyserRef s"
  "audioSourceRef (play_catch s) = audioSourceRef s"
  "animationFrameRef (play_catch s) = animationFrameRef s"
  "audioRef (play_catch s) = audioRef s"
  "currentAudioUrlRef (play_catch s) = currentAudioUrlRef s"
  "heap (play_catch s) = heap s"
  "open_contexts (play_catch s) = open_contexts s"
  "live_urls (play_catch s) = live_urls s"
  "pending_frames (play_catch s) = pending_frames s"
  "events (play_catch s) = events s"
  "fresh (play_catch s) = fresh s"
  by (simp_all add: play_catch_def emit_def split: option.splits)

lemma disconnect_source_ref: "audioSourceRef (disconnect_source s) = None"
  by (simp add: disconnect_source_def split: option.splits)

lemma disconnect_analyser_ref: "analyserRef (disconnect_analyser s) = None"
  by (simp add: disconnect_analyser_def split: option.splits)

lemma close_context_fields:
  assumes "close_context s = Inr s'"
  shows "audioData s' = audioData s" "isPlaying s' = isPlaying s"
    "analyserRef s' = analyserRef s" "audioSourceRef s' = audioSourceRef s"
    "animationFrameRef s' = animationFrameRef s" "audioRef s' = audioRef s"
    "currentAudioUrlRef s' = currentAudioUrlRef s" "heap s' = heap s"
    "live_urls s' = live_urls s" "pending_frames s' = pending_frames s"
    "events s' = events s" "fresh s' = fresh s"
    "audioContextRef s' = None"
    "open_contexts s' = (case audioContextRef s of None \<Rightarrow> open_contexts s
                          | Some c \<Rightarrow> removeAll c (open_contexts s))"
  using assms by (auto simp: close_context_def emit_def split: option.splits if_splits)

lemma close_context_ok:
  "(\<And>c. audioContextRef s = Some c \<Longrightarrow> c \<in> set (open_contexts s)) \<Longrightarrow> \<exists>s'. close_context s = Inr s'"
  by (auto simp: close_context_def split: option.splits)

lemma cleanup_tail_fields:
  "audioData (cleanup_tail s) = None" "\<not> isPlaying (cleanup_tail s)"
  "audioContextRef (cleanup_tail s) = audioContextRef s"
  "analyserRef (cleanup_tail s) = analyserRef s"
  "audioSourceRef (cleanup_tail s) = audioSourceRef s"
  "audioRef (cleanup_tail s) = audioRef s"
  "currentAudioUrlRef (cleanup_tail s) = currentAudioUrlRef s"
  "heap (cleanup_tail s) = heap s" "open_contexts (cleanup_tail s) = open_contexts s"
  "live_urls (cleanup_tail s) = live_urls s" "events (cleanup_tail s) = events s"
  "fresh (cleanup_tail s) = fresh s"
  "pending_frames (cleanup_tail s) = pending_frames (cancel_stored_frame s)"
  "animationFrameRef (cleanup_tail s) = animationFrameRef (cancel_stored_frame s)"
  by (simp_all add: cleanup_tail_def cancel_fields)

text \<open>What \<open>cleanup\<close> leaves behind when it returns.\<close>

lemma cleanup_fields:
  assumes "cleanup s = Inr s1"
  shows "audioData s1 = None" "\<not> isPlaying s1" "audioContextRef s1 = None"
    "analyserRef s1 = None" "audioSourceRef s1 = None"
    "audioRef s1 = audioRef (pause_element s)" "events s1 = events (pause_element s)"
    "currentAudioUrlRef s1 = currentAudioUrlRef s" "heap s1 = heap s"
    "live_urls s1 = live_urls s" "fresh s1 = fresh s"
    "open_contexts s1 = (case audioContextRef s of None \<Rightarrow> open_contexts s
                          | Some c \<Rightarrow> removeAll c (open_contexts s))"
    "pending_frames s1 = pending_frames (cancel_stored_frame s)"
    "animationFrameRef s1 = animationFrameRef (cancel_stored_frame s)"
proof -
  let ?s3 = "disconnect_analyser (disconnect_source (pause_element s))"
  from assms obtain s4 where c: "close_context ?s3 = Inr s4" and e: "s1 = cleanup_tail s4"
    by (auto simp: cleanup_def split: sum.splits)
  note cf = close_context_fields [OF c]
  note fs = cleanup_tail_fields disconnect_analyser_fields disconnect_source_fields
    pause_element_fields disconnect_source_ref disconnect_analyser_ref
  show "audioData s1 = None" "\<not> isPlaying s1" by (simp_all add: e cleanup_tail_fields)
  show "audioContextRef s1 = None" by (simp add: e cleanup_tail_fields cf)
  show "analyserRef s1 = None" by (simp add: e cf fs)
  show "audioSourceRef s1 = None" by (simp add: e cf fs)
  show "audioRef s1 = audioRef (pause_element s)" by (simp add: e cf fs)
  show "events s1 = events (pause_element s)" by (simp add: e cf fs)
  show "currentAudioUrlRef s1 = currentAudioUrlRef s" by (simp add: e cf fs)
  show "heap s1 = heap s" by (simp add: e cf fs)
  show "live_urls s1 = live_urls s" by (simp add: e cf fs)
  show "fresh s1 = fresh s" by (simp add: e cf fs)
  show "open_contexts s1 = (case audioContextRef s of None \<Rightarrow> open_contexts s
                          | Some c \<Rightarrow> removeAll c (open_contexts s))"
    by (simp add: e cf fs split: option.splits)
  have "animationFrameRef s4 = animationFrameRef s" "pending_frames s4 = pending_frames s"
    by (simp_all add: cf fs)
  from cancel_cong [OF this]
  show "pending_frames s1 = pending_frames (cancel_stored_frame s)"
    "animationFrameRef s1 = animationFrameRef (cancel_stored_frame s)"
    by (simp_all add: e cleanup_tail_fields)
qed

lemma cleanup_ok:
  assumes "\<And>c. audioContextRef s = Some c \<Longrightarrow> c \<in> set (open_contexts s)"
  shows "\<exists>s1. cleanup s = Inr s1"
proof -
  let ?s3 = "disconnect_analyser (disconnect_source (pause_element s))"
  have "\<exists>s4. close_context ?s3 = Inr s4"
    by (rule close_context_ok)
      (use assms in \<open>simp add: disconnect_analyser_fields disconnect_source_fields pause_element_fields\<close>)
  then show ?thesis by (auto simp: cleanup_def)
qed

lemma pause_element_trace:
  "trace (pause_element s) = trace s @ (if audioRef s \<noteq> None then [ElementPause] else [])"
  by (auto simp: pause_element_def el_pause_def emit_def split: option.splits)

lemma disconnect_source_trace:
  "trace (disconnect_source s) =
     trace s @ (case audioSourceRef s of Some n \<Rightarrow> [SourceDisconnect n] | None \<Rightarrow> [])"
  by (simp add: disconnect_source_def emit_def split: option.splits)

lemma disconnect_analyser_trace:
  "trace (disconnect_analyser s) =
     trace s @ (case analyserRef s of Some a \<Rightarrow> [AnalyserDisconnect] | None \<Rightarrow> [])"
  by (simp add: disconnect_analyser_def emit_def split: option.splits)

lemma close_context_trace:
  "close_context s = Inr s' \<Longrightarrow>
   trace s' = trace s @ (case audioContextRef s of Some c \<Rightarrow> [ContextClose c] | None \<Rightarrow> [])"
  by (auto simp: close_context_def emit_def split: option.splits if_splits)

lemma cleanup_trace:
  assumes "cleanup s = Inr s1"
  shows "trace s1 = trace s @ teardown_calls s"
proof -
  let ?s3 = "disconnect_analyser (disconnect_source (pause_element s))"
  from assms obtain s4 where c: "close_context ?s3 = Inr s4" and e: "s1 = cleanup_tail s4"
    by (auto simp: cleanup_def split: sum.splits)
  note cf = close_context_fields [OF c]
  have "trace s1 = trace (cancel_stored_frame s4)" by (simp add: e cleanup_tail_def)
  also have "\<dots> = trace s4 @ (case animationFrameRef s of
                  Some h \<Rightarrow> if h = 0 then [] else [CancelAnimationFrame h] | None \<Rightarrow> [])"
    by (simp add: cancel_trace cf disconnect_analyser_fields disconnect_source_fields
        pause_element_fields)
  also have "trace s4 = trace s @ (if audioRef s \<noteq> None then [ElementPause] else [])
       @ (case audioSourceRef s of Some n \<Rightarrow> [SourceDisconnect n] | None \<Rightarrow> [])
       @ (case analyserRef s of Some a \<Rightarrow> [AnalyserDisconnect] | None \<Rightarrow> [])
       @ (case audioContextRef s of Some c \<Rightarrow> [ContextClose c] | None \<Rightarrow> [])"
    by (simp add: close_context_trace [OF c] disconnect_analyser_trace disconnect_source_trace
        pause_element_trace disconnect_analyser_fields disconnect_source_fields
        pause_element_fields)
  finally show ?thesis by (simp add: teardown_calls_def)
qed

lemma state_same:
  "audioData x = None \<Longrightarrow> \<not> isPlaying x \<Longrightarrow> x\<lparr>audioData := None, isPlaying := False\<rparr> = x"
  by (cases x) simp

lemma cleanup_again:
  assumes c: "cleanup s = Inr s1"
  shows "cleanup s1 = Inr (if audioRef s1 = None then s1 else emit ElementPause s1)"
proof -
  note cf = cleanup_fields [OF c]
  let ?p = "if audioRef s1 = None then s1 else emit ElementPause s1"
  have el: "\<And>el. audioRef s1 = Some el \<Longrightarrow> paused el"
    by (auto simp: cf pause_element_def el_pause_def emit_def split: option.splits if_splits)
  have p: "pause_element s1 = ?p"
    by (auto simp: pause_element_def el_pause_def dest: el)
  have f: "audioSourceRef ?p = None" "analyserRef ?p = None" "audioContextRef ?p = None"
    "audioData ?p = None" "\<not> isPlaying ?p"
    by (simp_all add: cf emit_def)
  have a: "animationFrameRef ?p = None \<or> animationFrameRef ?p = Some 0"
    by (auto simp: cf emit_def cancel_stored_frame_def split: option.splits)
  then have "cancel_stored_frame ?p = ?p"
    by (auto simp: cancel_stored_frame_def)
  with f have "cleanup_tail ?p = ?p" by (simp add: cleanup_tail_def state_same)
  with f show ?thesis
    by (simp add: cleanup_def p disconnect_source_def disconnect_analyser_def close_context_def)
qed

subsection \<open>Submissions, and every step\<close>

lemma build_fields:
  "audioData (build b s) = audioData s" "isPlaying (build b s) = isPlaying s"
  "animationFrameRef (build b s) = animationFrameRef s" "heap (build b s) = heap s"
  "pending_frames (build b s) = pending_frames s" "events (build b s) = events s"
  "audioContextRef (build b s) = Some (fresh s)"
  "open_contexts (build b s) = open_contexts s @ [fresh s]"
  "analyserRef (build b s) = Some \<lparr>fftSize = 256\<rparr>"
  "live_urls (build b s) = live_urls s @ [(Suc (fresh s), b)]"
  "currentAudioUrlRef (build b s) = Some (Suc (fresh s))"
  "audioRef (build b s) = Some \<lparr>src = Some (Suc (fresh s)), currentTime = 0, paused = True\<rparr>"
  "audioSourceRef (build b s) = Some (Suc (Suc (fresh s)))"
  "fresh (build b s) = Suc (Suc (Suc (fresh s)))"
  by (simp_all add: build_def Let_def)

lemma revoke_live:
  "live_urls (revoke_previous s) =
     (case currentAudioUrlRef s of None \<Rightarrow> live_urls s
      | Some u \<Rightarrow> filter (\<lambda>p. fst p \<noteq> u) (live_urls s))"
  by (simp add: revoke_previous_def emit_def split: option.splits)

lemma inv_ctx_open:
  "inv s \<Longrightarrow> audioContextRef s = Some c \<Longrightarrow> open_contexts s = [c]"
  by (auto simp: inv_def inv_graph_def idle_def one_graph_for_iff split: if_splits)

lemma inv_urls:
  "inv s \<Longrightarrow> (case currentAudioUrlRef s of None \<Rightarrow> live_urls s
      | Some u \<Rightarrow> filter (\<lambda>p. fst p \<noteq> u) (live_urls s)) = []"
  by (auto simp: inv_def inv_graph_def idle_def one_graph_for_iff split: if_splits option.splits)

lemma inv_cleanup_ok: "inv s \<Longrightarrow> \<exists>s1. cleanup s = Inr s1"
  by (rule cleanup_ok) (simp add: inv_ctx_open)

lemma pause_element_el_pause: "pause_element s = el_pause s"
  by (simp add: pause_element_def el_pause_def)

lemma after_build:
  assumes i: "inv s" and c: "cleanup s = Inr s1"
  shows "inv (build b (revoke_previous s1))" and "one_graph_for b (build b (revoke_previous s1))"
proof -
  note cf = cleanup_fields [OF c]
  let ?r = "revoke_previous s1"
  let ?s' = "build b ?r"
  from i have ip: "inv (el_pause s)" by (rule inv_el_pause)
  from i have fr: "inv_frames s" by (simp add: inv_def)
  have oc: "open_contexts s1 = []"
    using i by (auto simp: cf inv_ctx_open split: option.splits)
       (auto simp: inv_def inv_graph_def idle_def one_graph_for_iff split: if_splits)
  have lu: "live_urls ?r = []"
    using inv_urls [OF i] by (simp add: revoke_live cf split: option.splits)
  have pf: "pending_frames s1 = []" by (simp add: cf cancel_pending [OF fr])
  show g: "one_graph_for b ?s'"
    by (simp add: one_graph_for_iff build_fields revoke_previous_fields oc lu)
  show "inv ?s'"
  proof (rule invI)
    from fr have "animationFrameRef (cancel_stored_frame s) \<noteq> Some 0"
      by (auto simp: inv_frames_def cancel_stored_frame_def emit_def split: option.splits)
    then show "inv_frames ?s'"
      by (simp add: inv_frames_def build_fields revoke_previous_fields pf cf)
    show "inv_heap ?s'"
      by (simp add: inv_heap_def build_fields revoke_previous_fields cf)
    from g show "inv_graph ?s'" by (auto simp: inv_graph_def build_fields)
    from ip have "queue_ok False (el_paused (el_pause s)) (events (el_pause s))"
      by (auto simp: inv_def inv_queue_def intro: queue_ok_stopped)
    moreover have "el_paused (el_pause s)"
      by (auto simp: el_paused_def el_pause_def emit_def split: option.splits)
    ultimately show "inv_queue ?s'"
      by (simp add: inv_queue_def el_paused_def build_fields revoke_previous_fields pf cf
          pause_element_el_pause)
  qed
qed

lemma inv_start_playback: "inv s \<Longrightarrow> inv (start_playback allowed s)"
  by (simp add: start_playback_def inv_el_play inv_play_catch)

lemma inv_live_frame: "inv s \<Longrightarrow> inv ((setAudioData_new arr s)\<lparr>isPlaying := True\<rparr>)"
  by (auto simp: inv_def inv_frames_def inv_heap_def inv_graph_def inv_queue_def idle_def
      el_paused_def one_graph_for_iff setAudioData_new_def)

lemma inv_submit:
  assumes i: "inv s" and s: "handleAudioResponse p allowed s = Inr s'"
  shows "inv s'"
proof -
  from s obtain b where p: "p = Some b" by (cases p) (simp_all add: handleAudioResponse_def)
  show ?thesis
  proof (cases "blob_type b = ''application/octet-stream''")
    case True
    with s p have "s' = (setAudioData_new (blob_bytes b) s)\<lparr>isPlaying := True\<rparr>"
      by (simp add: handleAudioResponse_def)
    with i show ?thesis by (simp add: inv_live_frame)
  next
    case False
    with s p obtain s1 where c: "cleanup s = Inr s1"
      and e: "s' = start_playback allowed (build b (revoke_previous s1))"
      by (auto simp: handleAudioResponse_def split: sum.splits)
    from after_build(1) [OF i c] e show ?thesis by (simp add: inv_start_playback)
  qed
qed

lemma inv_step:
  assumes i: "inv s" and s: "step a s = Some s'"
  shows "inv s'"
proof (cases a)
  case (Submit p allowed)
  with s have "handleAudioResponse p allowed s = Inr s'" by (simp split: sum.splits)
  with i show ?thesis by (rule inv_submit)
next
  case (Toggle allowed)
  with s i show ?thesis by (auto simp: inv_togglePlayback)
next
  case (Deliver sig f)
  with s i show ?thesis by (auto intro: inv_deliver)
next
  case (Tick h f)
  with s i show ?thesis by (auto intro: inv_frame_fires)
next
  case (EndOfClip t)
  with s i show ?thesis by (auto intro: inv_end_of_clip)
next
  case PlayRejected
  with s i show ?thesis by (auto simp: inv_play_catch split: if_splits)
qed

lemma reachable_inv: "reachable s \<Longrightarrow> inv s"
  by (induction rule: reachable.induct) (auto intro: inv_init inv_step)


section \<open>What the invariant gives\<close>

subsection \<open>Refs and graph of a reachable state\<close>

lemma reachable_src:
  assumes "reachable s" "audioRef s = Some el"
  shows "src el = currentAudioUrlRef s" "currentAudioUrlRef s \<noteq> None"
  using inv_graph_src [of s el] reachable_inv [OF assms(1)] assms(2)
  by (simp_all add: inv_def)

lemma reachable_graph_refs:
  assumes "reachable s" "audioRef s \<noteq> None"
  shows "\<exists>c n u. audioContextRef s = Some c \<and> audioSourceRef s = Some n
      \<and> currentAudioUrlRef s = Some u \<and> analyserRef s = Some \<lparr>fftSize = 256\<rparr>
      \<and> open_contexts s = [c]"
  using reachable_inv [OF assms(1)] assms(2)
  by (auto simp: inv_def inv_graph_def one_graph_for_iff)

lemma reachable_analyser:
  "reachable s \<Longrightarrow> audioRef s \<noteq> None \<Longrightarrow> analyserRef s = Some \<lparr>fftSize = 256\<rparr>"
  using reachable_graph_refs by blast

lemma reachable_events_element:
  assumes "reachable s" "events s \<noteq> []"
  shows "audioRef s \<noteq> None"
  using reachable_inv [OF assms(1)] assms(2)
  by (auto simp: inv_def inv_graph_def idle_def split: if_splits)

lemma reachable_pending_element:
  assumes "reachable s" "pending_frames s \<noteq> []"
  shows "audioRef s \<noteq> None"
  using reachable_inv [OF assms(1)] assms(2)
  by (auto simp: inv_def inv_graph_def idle_def split: if_splits)

lemma one_graph_for_src:
  "one_graph_for b s \<Longrightarrow> \<exists>el u. audioRef s = Some el \<and> src el = Some u \<and> currentAudioUrlRef s = Some u"
  by (auto simp: one_graph_for_iff)

lemma one_graph_for_el_play: "one_graph_for b (el_play a s) = one_graph_for b s"
  by (cases "audioRef s") (auto simp: one_graph_for_iff el_play_def emit_def)

lemma one_graph_for_play_catch: "one_graph_for b (play_catch s) = one_graph_for b s"
  by (simp add: one_graph_for_iff play_catch_fields)

lemma one_graph_for_start: "one_graph_for b (start_playback a s) = one_graph_for b s"
  by (simp add: start_playback_def one_graph_for_el_play one_graph_for_play_catch)

subsection \<open>A clip submission\<close>

lemma revoke_trace:
  "trace (revoke_previous s) =
     trace s @ (case currentAudioUrlRef s of Some u \<Rightarrow> [RevokeObjectURL u] | None \<Rightarrow> [])"
  by (simp add: revoke_previous_def emit_def split: option.splits)

lemma build_trace: "trace (build b s) = trace s @ construct_calls (fresh s)"
  by (simp add: build_def construct_calls_def Let_def)

lemma start_trace:
  "audioRef s \<noteq> None \<Longrightarrow>
   trace (start_playback a s) = trace s @ [ElementPlay] @ (if a then [] else [ConsoleError])"
  by (auto simp: start_playback_def el_play_def play_catch_def emit_def)

lemma clip_submission:
  assumes r: "reachable s" and t: "blob_type b \<noteq> ''application/octet-stream''"
  shows "\<exists>s1 s'. cleanup s = Inr s1
      \<and> open_contexts s1 = [] \<and> audioContextRef s1 = None \<and> analyserRef s1 = None
      \<and> audioSourceRef s1 = None
      \<and> handleAudioResponse (Some b) allowed s = Inr s'
      \<and> s' = start_playback allowed (build b (revoke_previous s1))
      \<and> trace s' = trace s @ teardown_calls s
           @ (case currentAudioUrlRef s of Some u \<Rightarrow> [RevokeObjectURL u] | None \<Rightarrow> [])
           @ construct_calls (fresh s) @ [ElementPlay] @ (if allowed then [] else [ConsoleError])
      \<and> one_graph_for b s' \<and> reachable s'"
proof -
  from r have i: "inv s" by (rule reachable_inv)
  then obtain s1 where c: "cleanup s = Inr s1" using inv_cleanup_ok by blast
  note cf = cleanup_fields [OF c]
  let ?s' = "start_playback allowed (build b (revoke_previous s1))"
  from t c have h: "handleAudioResponse (Some b) allowed s = Inr ?s'"
    by (simp add: handleAudioResponse_def)
  have oc: "open_contexts s1 = []"
  proof (cases "audioContextRef s")
    case None
    with i have "open_contexts s = []"
      by (auto simp: inv_def inv_graph_def idle_def one_graph_for_iff split: if_splits)
    with None show ?thesis by (simp add: cf(12))
  next
    case (Some x)
    with i have "open_contexts s = [x]" by (simp add: inv_ctx_open)
    with Some show ?thesis by (simp add: cf(12))
  qed
  have tr: "trace ?s' = trace s @ teardown_calls s
           @ (case currentAudioUrlRef s of Some u \<Rightarrow> [RevokeObjectURL u] | None \<Rightarrow> [])
           @ construct_calls (fresh s) @ [ElementPlay] @ (if allowed then [] else [ConsoleError])"
    by (simp add: start_trace build_fields build_trace revoke_trace revoke_previous_fields
        cleanup_trace [OF c] cf(8,11))
  from h have "step (Submit (Some b) allowed) s = Some ?s'" by simp
  with r have rs: "reachable ?s'" by (rule reachable_step)
  have og: "one_graph_for b ?s'"
    by (simp add: one_graph_for_start after_build(2) [OF i c])
  show ?thesis
    by (intro exI [of _ s1] exI [of _ ?s'] conjI) (rule c oc cf(3,4,5) h refl tr og rs)+
qed

text \<open>An absent payload (\<open>null\<close> or \<open>undefined\<close>) raises at line 78, before the guard of line 88.\<close>

lemma absent_payload_raises: "handleAudioResponse None allowed s = Inl TypeError"
  by (simp add: handleAudioResponse_def)

subsection \<open>Toggle, rejection, events and frames\<close>

lemma toggle_restart:
  assumes "audioRef s = Some el" "src el \<noteq> None" "\<not> isPlaying s"
  shows "togglePlayback a s = play_logged a (el_set_currentTime 0 s)"
    "trace (togglePlayback a s) =
       trace s @ [ElementSetCurrentTime 0, ElementPlay] @ (if a then [] else [ConsoleError])"
    "audioRef (togglePlayback a s) = Some (el\<lparr>currentTime := 0, paused := paused el \<and> \<not> a\<rparr>)"
    "events (togglePlayback a s) = events s @ (if a \<and> paused el then [Play] else [])"
    "one_graph_for b (togglePlayback a s) = one_graph_for b s"
    "live_urls (togglePlayback a s) = live_urls s"
    "isPlaying (togglePlayback a s) = isPlaying s"
proof -
  from assms show e: "togglePlayback a s = play_logged a (el_set_currentTime 0 s)"
    by (auto simp: togglePlayback_def)
  from assms show "trace (togglePlayback a s) =
       trace s @ [ElementSetCurrentTime 0, ElementPlay] @ (if a then [] else [ConsoleError])"
    "audioRef (togglePlayback a s) = Some (el\<lparr>currentTime := 0, paused := paused el \<and> \<not> a\<rparr>)"
    "events (togglePlayback a s) = events s @ (if a \<and> paused el then [Play] else [])"
    "one_graph_for b (togglePlayback a s) = one_graph_for b s"
    "live_urls (togglePlayback a s) = live_urls s"
    "isPlaying (togglePlayback a s) = isPlaying s"
    by (auto simp: e play_logged_def el_play_def el_set_currentTime_def emit_def one_graph_for_iff)
qed

lemma snapshot_None: "audioData s = None \<Longrightarrow> snapshot s = None"
  by (simp add: snapshot_def)

lemma snapshot_iff: "snapshot s \<noteq> None \<longleftrightarrow> audioData s \<noteq> None"
  by (simp add: snapshot_def split: option.splits)

lemma after_catch:
  assumes g: "one_graph_for b s"
  shows "\<not> isPlaying (play_catch s)" "snapshot (play_catch s) = None"
    "one_graph_for b (play_catch s)"
    "trace (togglePlayback a (play_catch s)) =
       trace (play_catch s) @ [ElementSetCurrentTime 0, ElementPlay] @ (if a then [] else [ConsoleError])"
    "one_graph_for b (togglePlayback a (play_catch s))"
proof -
  show n: "\<not> isPlaying (play_catch s)" by (simp add: play_catch_def)
  show "snapshot (play_catch s) = None" by (simp add: snapshot_None play_catch_def)
  from g show g': "one_graph_for b (play_catch s)" by (simp add: one_graph_for_play_catch)
  from one_graph_for_src [OF g'] obtain el u where
    el: "audioRef (play_catch s) = Some el" "src el = Some u" by blast
  then have s: "src el \<noteq> None" by simp
  from toggle_restart(2) [OF el(1) s n]
  show "trace (togglePlayback a (play_catch s)) =
       trace (play_catch s) @ [ElementSetCurrentTime 0, ElementPlay] @ (if a then [] else [ConsoleError])" .
  from toggle_restart(5) [OF el(1) s n] g'
  show "one_graph_for b (togglePlayback a (play_catch s))" by simp
qed


text \<open>What a dispatched event leaves behind.\<close>

lemma deliver_play:
  assumes r: "reachable s" and s: "step (Deliver Play f) s = Some s1"
  shows "isPlaying s1" "audioData s1 = Some (length (heap s))" "pending_frames s1 = [fresh s]"
    "animationFrameRef s1 = Some (fresh s)"
    "heap s1 = heap s @ [getByteFrequencyData f \<lparr>fftSize = 256\<rparr> (replicate 128 0)]"
    "trace s1 = trace s @ [RequestAnimationFrame (fresh s)]"
proof -
  from s obtain q where ev: "events s = Play # q"
    and e: "s1 = animate f (s\<lparr>events := q, isPlaying := True\<rparr>)"
    by (auto simp: dispatch_def on_play_def split: list.splits if_splits)
  let ?s0 = "s\<lparr>events := q, isPlaying := True\<rparr>"
  from r ev have "audioRef s \<noteq> None" by (intro reachable_events_element) simp_all
  with r have a: "analyserRef ?s0 = Some \<lparr>fftSize = 256\<rparr>" by (simp add: reachable_analyser)
  from reachable_inv [OF r] ev have "queue_ok (pending_frames s \<noteq> []) (el_paused s) (Play # q)"
    by (simp add: inv_def inv_queue_def)
  then have p: "pending_frames s = []" by (auto dest: queue_ok_pop_play)
  show "isPlaying s1" by (simp add: e animate_fields)
  show "audioData s1 = Some (length (heap s))" by (simp add: e animate_Some [OF a])
  show "pending_frames s1 = [fresh s]" by (simp add: e animate_Some [OF a] p)
  show "animationFrameRef s1 = Some (fresh s)" by (simp add: e animate_Some [OF a])
  show "heap s1 = heap s @ [getByteFrequencyData f \<lparr>fftSize = 256\<rparr> (replicate 128 0)]"
    by (simp add: e animate_Some [OF a] frequencyBinCount_def)
  show "trace s1 = trace s @ [RequestAnimationFrame (fresh s)]"
    by (simp add: e animate_Some [OF a])
qed

lemma deliver_stop:
  assumes r: "reachable s" and s: "step (Deliver sig f) s = Some s1" and n: "sig \<noteq> Play"
  shows "\<not> isPlaying s1" "audioData s1 = None" "pending_frames s1 = []"
    "animationFrameRef s1 = None" "heap s1 = heap s"
    "sampler_publications s1 = sampler_publications s"
proof -
  from s obtain q where ev: "events s = sig # q" and e: "s1 = dispatch sig f (s\<lparr>events := q\<rparr>)"
    by (auto split: list.splits if_splits)
  from reachable_inv [OF r] have fr: "inv_frames (s\<lparr>events := q\<rparr>)"
    "inv_frames (s\<lparr>events := q, isPlaying := False\<rparr>)"
    by (simp_all add: inv_def inv_frames_def)
  from n have c: "sig = Pause \<or> sig = Ended" by (cases sig) simp_all
  from c show "\<not> isPlaying s1" "audioData s1 = None" "heap s1 = heap s"
    by (auto simp: e dispatch_def on_pause_def on_ended_def cancel_fields)
  from c fr show "pending_frames s1 = []"
    by (auto simp: e dispatch_def on_pause_def on_ended_def cancel_pending)
  from c fr show "animationFrameRef s1 = None"
    by (auto simp: e dispatch_def on_pause_def on_ended_def cancel_ref)
  from c show "sampler_publications s1 = sampler_publications s"
    by (auto simp: e dispatch_def on_pause_def on_ended_def sampler_publications_def cancel_trace
        split: option.splits)
qed

lemma tick_publishes:
  assumes r: "reachable s" and s: "step (Tick h g) s = Some s2"
  shows "isPlaying s2 = isPlaying s" "audioData s2 = Some (length (heap s))"
    "heap s2 = heap s @ [getByteFrequencyData g \<lparr>fftSize = 256\<rparr> (replicate 128 0)]"
    "pending_frames s2 = [fresh s]" "animationFrameRef s2 = Some (fresh s)"
proof -
  from s have m: "h \<in> set (pending_frames s)"
    and e0: "s2 = animate g (s\<lparr>pending_frames := removeAll h (pending_frames s)\<rparr>)"
    by (auto simp: frame_fires_def split: if_splits)
  let ?s0 = "s\<lparr>pending_frames := []\<rparr>"
  from m have "pending_frames s \<noteq> []" by auto
  with r have "audioRef s \<noteq> None" by (rule reachable_pending_element)
  with r have a: "analyserRef ?s0 = Some \<lparr>fftSize = 256\<rparr>" by (simp add: reachable_analyser)
  from reachable_inv [OF r] m have p: "removeAll h (pending_frames s) = []"
    by (simp add: inv_def pending_stored)
  with e0 have e: "s2 = animate g ?s0" by simp
  show "isPlaying s2 = isPlaying s" by (simp add: e animate_fields)
  show "audioData s2 = Some (length (heap s))" by (simp add: e animate_Some [OF a])
  show "heap s2 = heap s @ [getByteFrequencyData g \<lparr>fftSize = 256\<rparr> (replicate 128 0)]"
    by (simp add: e animate_Some [OF a] frequencyBinCount_def)
  show "pending_frames s2 = [fresh s]" by (simp add: e animate_Some [OF a])
  show "animationFrameRef s2 = Some (fresh s)" by (simp add: e animate_Some [OF a])
qed

subsection \<open>The heap only grows\<close>

lemma length_getByteFrequencyData: "length (getByteFrequencyData f a arr) = length arr"
  by (simp add: getByteFrequencyData_def Let_def)

lemma snapshot_new:
  "audioData s = Some (length h) \<Longrightarrow> heap s = h @ [arr] \<Longrightarrow> snapshot s = Some arr"
  by (simp add: snapshot_def)

lemma toggle_heap: "heap (togglePlayback a s) = heap s"
  by (auto simp: togglePlayback_def play_logged_def el_play_def el_pause_def
      el_set_currentTime_def el_set_src_def emit_def split: option.splits)

lemma submit_heap:
  assumes "handleAudioResponse p a s = Inr s'"
  shows "heap s' = heap s \<or> heap s' = heap s @ [blob_bytes (the p)]"
proof -
  from assms obtain b where p: "p = Some b" by (cases p) (simp_all add: handleAudioResponse_def)
  show ?thesis
  proof (cases "blob_type b = ''application/octet-stream''")
    case True
    with assms p show ?thesis by (auto simp: handleAudioResponse_def setAudioData_new_def)
  next
    case False
    with assms p obtain s1 where c: "cleanup s = Inr s1"
      and e: "s' = start_playback a (build b (revoke_previous s1))"
      by (auto simp: handleAudioResponse_def split: sum.splits)
    have "heap s' = heap s"
      by (simp add: e start_playback_def el_play_fields play_catch_fields build_fields
          revoke_previous_fields cleanup_fields [OF c])
    then show ?thesis by simp
  qed
qed

lemma step_heap:
  assumes r: "reachable s" and st: "step a s = Some s'"
  shows "prefix (heap s) (heap s')"
proof (cases a)
  case (Submit p al)
  with st have "handleAudioResponse p al s = Inr s'" by (simp split: sum.splits)
  from submit_heap [OF this] show ?thesis by auto
next
  case (Toggle al)
  with st show ?thesis by (auto simp: toggle_heap)
next
  case (Deliver sig f)
  show ?thesis
  proof (cases "sig = Play")
    case True
    with st Deliver have "step (Deliver Play f) s = Some s'" by simp
    from deliver_play(5) [OF r this] show ?thesis by simp
  next
    case False
    from deliver_stop(5) [OF r _ False] st Deliver show ?thesis by simp
  qed
next
  case (Tick h g)
  with st have "step (Tick h g) s = Some s'" by simp
  from tick_publishes(3) [OF r this] show ?thesis by simp
next
  case (EndOfClip t)
  with st show ?thesis by (auto split: option.splits if_splits)
next
  case PlayRejected
  with st show ?thesis by (auto simp: play_catch_fields split: if_splits)
qed

lemma run_heap:
  assumes "reachable s" "run as s = Some s'"
  shows "prefix (heap s) (heap s')"
  using assms
proof (induction as arbitrary: s)
  case Nil
  then show ?case by simp
next
  case (Cons a as)
  from Cons.prems(2) obtain s1 where s1: "step a s = Some s1" and rest: "run as s1 = Some s'"
    by (auto split: option.splits)
  from Cons.prems(1) s1 have "reachable s1" by (rule reachable_step)
  from Cons.IH [OF this rest] step_heap [OF Cons.prems(1) s1] show ?case
    by (rule prefix_order.trans [rotated])
qed

lemma prefix_nth: "prefix xs ys \<Longrightarrow> i < length xs \<Longrightarrow> ys ! i = xs ! i"
  by (auto simp: prefix_def nth_append)

section \<open>The example states are reachable\<close>

lemmas model_defs = handleAudioResponse_def cleanup_def cleanup_tail_def close_context_def
  disconnect_analyser_def disconnect_source_def pause_element_def el_pause_def el_play_def
  el_set_currentTime_def el_set_src_def cancel_stored_frame_def emit_def revoke_previous_def
  build_def start_playback_def play_catch_def togglePlayback_def play_logged_def animate_def
  setAudioData_new_def getByteFrequencyData_def frequencyBinCount_def frame_fires_def
  on_play_def on_pause_def on_ended_def dispatch_def Let_def

lemma map_const_upt: "map (\<lambda>_. x) [0..<n] = replicate n x"
  by (induction n) (simp_all add: replicate_append_same)

lemma st_loaded_step: "step (Submit (Some clipA) True) init = Some st_loaded"
  by (simp add: model_defs init_def st_loaded_def clipA_def)

lemma st_live_step: "step (Deliver Play (\<lambda>_. 7)) st_loaded = Some st_live"
  by (simp add: model_defs st_loaded_def st_live_def map_const_upt)

lemma reachable_st_loaded: "reachable st_loaded"
  by (rule reachable_step [OF reachable_init st_loaded_step])

lemma reachable_st_live: "reachable st_live"
  by (rule reachable_step [OF reachable_st_loaded st_live_step])

lemma st_ended_step: "step (EndOfClip 9) st_live = Some st_ended"
  by (simp add: st_live_def st_loaded_def st_ended_def)

lemma reachable_st_ended: "reachable st_ended"
  by (rule reachable_step [OF reachable_st_live st_ended_step])

lemma st_ending_step: "step (Deliver Pause f) st_ended = Some st_ending"
  by (simp add: model_defs st_live_def st_loaded_def st_ended_def st_ending_def)



lemma reachable_frame123: "reachable ((setAudioData_new [10, 20, 30] init)\<lparr>isPlaying := True\<rparr>)"
proof -
  have "step (Submit (Some frame123) True) init = Some ((setAudioData_new [10, 20, 30] init)\<lparr>isPlaying := True\<rparr>)"
    by (simp add: handleAudioResponse_def frame123_def)
  with reachable_init show ?thesis by (rule reachable_step)
qed

section \<open>A call that nothing interrupts\<close>

text \<open>
  When \<open>handleAudioResponse\<close>, taken as one function, returns, the same call taken
  \<open>await\<close> by \<open>await\<close> and resumed each time before anything else happens ends in the
  same state, with no call waiting and no context still closing. So the event loop
  \<open>step\<close> is the part of \<open>istep\<close> in which calls do not overlap with anything.
\<close>

lemmas world_defs = world0_def suspend_def call_handleAudioResponse_def resume_def unmount_def

lemma awaited_call:
  assumes "handleAudioResponse (Some b) allowed s = Inr s'"
  shows "\<exists>w. irun (awaited b allowed s) \<lparr>comp = s, waiting = [], closing = [], detached = d\<rparr> = Some w
           \<and> comp w = s' \<and> waiting w = [] \<and> closing w = []"
proof (cases "blob_type b = ''application/octet-stream''")
  case True
  with assms show ?thesis
    by (auto simp: awaited_def handleAudioResponse_def call_handleAudioResponse_def resume_def
        suspend_def)
next
  case False
  define s3 where "s3 = disconnect_analyser (disconnect_source (pause_element s))"
  have r: "audioContextRef s3 = audioContextRef s"
    by (simp add: s3_def disconnect_analyser_fields disconnect_source_fields pause_element_fields)
  show ?thesis
  proof (cases "audioContextRef s")
    case None
    with assms False r show ?thesis
      by (auto simp: awaited_def handleAudioResponse_def call_handleAudioResponse_def resume_def
          suspend_def cleanup_def close_context_def start_playback_def s3_def [symmetric])
  next
    case (Some c)
    with assms False r show ?thesis
      by (auto simp: awaited_def handleAudioResponse_def call_handleAudioResponse_def resume_def
          suspend_def cleanup_def close_context_def start_playback_def s3_def [symmetric]
          split: if_splits)
  qed
qed

section \<open>Claims\<close>

text \<open>
  C1, for two calls that overlap. Two clips are submitted to the initial state one right
  after the other. Each call runs \<open>cleanup\<close> while there is nothing to tear down and
  stops at line 118; then the first call revokes nothing, builds its graph and calls
  \<open>play()\<close>, and then the second revokes the first clip's object URL and builds its graph
  over the same refs. The log holds the two constructions, the two \<open>play()\<close> calls and
  the one revocation, and no \<open>pause()\<close>, \<open>disconnect()\<close> or \<open>close()\<close>: both contexts are
  open, the first element is still playing, with the revoked URL as its \<open>src\<close>, and no
  ref leads to it or to its context any more. So the state is not one with exactly one
  graph for the second clip.
\<close>

theorem overlapping_calls_two_graphs:
  "\<exists>w. irun overlapping world0 = Some w
     \<and> open_contexts (comp w) = [1, 4] \<and> closing w = []
     \<and> audioContextRef (comp w) = Some 4
     \<and> live_urls (comp w) = [(5, clipB)]
     \<and> audioRef (comp w) = Some \<lparr>src = Some 5, currentTime = 0, paused = False\<rparr>
     \<and> detached w = [\<lparr>src = Some 2, currentTime = 0, paused = False\<rparr>]
     \<and> trace (comp w) = construct_calls 1 @ [ElementPlay, RevokeObjectURL 2]
                           @ construct_calls 4 @ [ElementPlay]
     \<and> \<not> one_graph_for clipB (comp w)"
  by (simp add: overlapping_def model_defs world_defs init_def clipA_def clipB_def
      construct_calls_def one_graph_for_def)

text \<open>
  C2. \<open>togglePlayback\<close>, case by case. With an element and status playing it calls
  \<open>pause()\<close> on the element and nothing else: the status is still playing after the call.
  With an element that has a \<open>src\<close> and status not playing it sets \<open>currentTime\<close> to 0
  and calls \<open>play()\<close>. With an element without \<open>src\<close>, status not playing and a retained
  object URL it sets \<open>src\<close> to that URL and calls \<open>play()\<close>. With no element, or with
  status not playing, no \<open>src\<close> and no retained URL, the state is unchanged. In a
  reachable state every element has a \<open>src\<close>, so there the call is a no-op whenever no
  element with a \<open>src\<close> exists, whatever the status.
\<close>

theorem togglePlayback_cases:
  "(audioRef s = Some el \<and> isPlaying s \<longrightarrow>
      togglePlayback allowed s = el_pause s
    \<and> trace (togglePlayback allowed s) = trace s @ [ElementPause]
    \<and> isPlaying (togglePlayback allowed s))
 \<and> (audioRef s = Some el \<and> \<not> isPlaying s \<and> src el \<noteq> None \<longrightarrow>
      trace (togglePlayback allowed s) =
        trace s @ [ElementSetCurrentTime 0, ElementPlay] @ (if allowed then [] else [ConsoleError])
    \<and> audioRef (togglePlayback allowed s) =
        Some (el\<lparr>currentTime := 0, paused := paused el \<and> \<not> allowed\<rparr>)
    \<and> events (togglePlayback allowed s) = events s @ (if allowed \<and> paused el then [Play] else [])
    \<and> \<not> isPlaying (togglePlayback allowed s))
 \<and> (audioRef s = Some el \<and> \<not> isPlaying s \<and> src el = None \<and> currentAudioUrlRef s = Some u \<longrightarrow>
      trace (togglePlayback allowed s) =
        trace s @ [ElementSetSrc u, ElementPlay] @ (if allowed then [] else [ConsoleError])
    \<and> audioRef (togglePlayback allowed s) =
        Some (el\<lparr>src := Some u, paused := paused el \<and> \<not> allowed\<rparr>)
    \<and> events (togglePlayback allowed s) = events s @ (if allowed \<and> paused el then [Play] else [])
    \<and> \<not> isPlaying (togglePlayback allowed s))
 \<and> (audioRef s = None \<or>
       (\<not> isPlaying s \<and> (\<forall>e. audioRef s = Some e \<longrightarrow> src e = None) \<and> currentAudioUrlRef s = None) \<longrightarrow>
      togglePlayback allowed s = s)
 \<and> (reachable s \<and> (\<forall>e. audioRef s = Some e \<longrightarrow> src e = None) \<longrightarrow> togglePlayback allowed s = s)"
proof (intro conjI impI)
  assume a: "audioRef s = Some el \<and> isPlaying s"
  then show "togglePlayback allowed s = el_pause s" by (simp add: togglePlayback_def)
  from a show "trace (togglePlayback allowed s) = trace s @ [ElementPause]"
    by (simp add: togglePlayback_def el_pause_def emit_def)
  from a show "isPlaying (togglePlayback allowed s)"
    by (simp add: togglePlayback_def el_pause_fields)
next
  assume a: "audioRef s = Some el \<and> \<not> isPlaying s \<and> src el \<noteq> None"
  then have e: "togglePlayback allowed s = play_logged allowed (el_set_currentTime 0 s)"
    by (auto simp: togglePlayback_def)
  from a show "trace (togglePlayback allowed s) =
        trace s @ [ElementSetCurrentTime 0, ElementPlay] @ (if allowed then [] else [ConsoleError])"
    by (simp add: e play_logged_def el_play_def el_set_currentTime_def emit_def)
  from a show "audioRef (togglePlayback allowed s) =
        Some (el\<lparr>currentTime := 0, paused := paused el \<and> \<not> allowed\<rparr>)"
    by (simp add: e play_logged_def el_play_def el_set_currentTime_def emit_def)
  from a show "events (togglePlayback allowed s) = events s @ (if allowed \<and> paused el then [Play] else [])"
    by (simp add: e play_logged_def el_play_def el_set_currentTime_def emit_def)
  from a show "\<not> isPlaying (togglePlayback allowed s)"
    by (simp add: e play_logged_def el_play_def el_set_currentTime_def emit_def)
next
  assume a: "audioRef s = Some el \<and> \<not> isPlaying s \<and> src el = None \<and> currentAudioUrlRef s = Some u"
  then have e: "togglePlayback allowed s = play_logged allowed (el_set_src u s)"
    by (auto simp: togglePlayback_def)
  from a show "trace (togglePlayback allowed s) =
        trace s @ [ElementSetSrc u, ElementPlay] @ (if allowed then [] else [ConsoleError])"
    by (simp add: e play_logged_def el_play_def el_set_src_def emit_def)
  from a show "audioRef (togglePlayback allowed s) =
        Some (el\<lparr>src := Some u, paused := paused el \<and> \<not> allowed\<rparr>)"
    by (simp add: e play_logged_def el_play_def el_set_src_def emit_def)
  from a show "events (togglePlayback allowed s) = events s @ (if allowed \<and> paused el then [Play] else [])"
    by (simp add: e play_logged_def el_play_def el_set_src_def emit_def)
  from a show "\<not> isPlaying (togglePlayback allowed s)"
    by (simp add: e play_logged_def el_play_def el_set_src_def emit_def)
next
  assume "audioRef s = None \<or>
       (\<not> isPlaying s \<and> (\<forall>e. audioRef s = Some e \<longrightarrow> src e = None) \<and> currentAudioUrlRef s = None)"
  then show "togglePlayback allowed s = s"
    by (auto simp: togglePlayback_def split: option.splits)
next
  assume a: "reachable s \<and> (\<forall>e. audioRef s = Some e \<longrightarrow> src e = None)"
  have "audioRef s = None"
  proof (cases "audioRef s")
    case (Some e)
    with a reachable_src [of s e] show ?thesis by auto
  qed simp
  then show "togglePlayback allowed s = s" by (simp add: togglePlayback_def)
qed

theorem togglePlayback_cases_witness:
  "trace (togglePlayback True st_playing) = [ElementPause]
 \<and> isPlaying (togglePlayback True st_playing)
 \<and> trace (togglePlayback True st_paused) = [ElementSetCurrentTime 0, ElementPlay]
 \<and> audioRef (togglePlayback True st_paused) = Some \<lparr>src = Some 2, currentTime = 0, paused = False\<rparr>
 \<and> events (togglePlayback True st_paused) = [Play]
 \<and> trace (togglePlayback False st_unbound) = [ElementSetSrc 2, ElementPlay, ConsoleError]
 \<and> audioRef (togglePlayback False st_unbound) = Some \<lparr>src = Some 2, currentTime = 0, paused = True\<rparr>
 \<and> togglePlayback True st_empty_element = st_empty_element
 \<and> togglePlayback True init = init"
proof -
  let ?e1 = "\<lparr>src = Some 2, currentTime = 9, paused = False\<rparr>"
  let ?e2 = "\<lparr>src = Some 2, currentTime = 9, paused = True\<rparr>"
  let ?e3 = "\<lparr>src = None, currentTime = 0, paused = True\<rparr>"
  have h1: "audioRef st_playing = Some ?e1 \<and> isPlaying st_playing"
    by (simp add: st_playing_def init_def)
  have h2: "audioRef st_paused = Some ?e2 \<and> \<not> isPlaying st_paused \<and> src ?e2 \<noteq> None"
    by (simp add: st_paused_def init_def)
  have h3: "audioRef st_unbound = Some ?e3 \<and> \<not> isPlaying st_unbound \<and> src ?e3 = None
      \<and> currentAudioUrlRef st_unbound = Some 2"
    by (simp add: st_unbound_def init_def)
  have h4: "audioRef st_empty_element = None \<or>
      (\<not> isPlaying st_empty_element \<and> (\<forall>e. audioRef st_empty_element = Some e \<longrightarrow> src e = None)
        \<and> currentAudioUrlRef st_empty_element = None)"
    by (simp add: st_empty_element_def init_def)
  have "audioRef init = None" by (simp add: init_def)
  then have h5: "reachable init \<and> (\<forall>e. audioRef init = Some e \<longrightarrow> src e = None)"
    by (simp add: reachable_init)
  have t: "trace st_playing = []" "trace st_paused = []" "trace st_unbound = []"
    "events st_paused = []"
    by (simp_all add: st_playing_def st_paused_def st_unbound_def init_def)
  have r1: "trace (togglePlayback True st_playing) = trace st_playing @ [ElementPause]
      \<and> isPlaying (togglePlayback True st_playing)"
    using togglePlayback_cases [of st_playing ?e1 True 2] h1 by blast
  have r2: "trace (togglePlayback True st_paused) =
        trace st_paused @ [ElementSetCurrentTime 0, ElementPlay] @ (if True then [] else [ConsoleError])
      \<and> audioRef (togglePlayback True st_paused) =
        Some (?e2\<lparr>currentTime := 0, paused := paused ?e2 \<and> \<not> True\<rparr>)
      \<and> events (togglePlayback True st_paused) =
        events st_paused @ (if True \<and> paused ?e2 then [Play] else [])
      \<and> \<not> isPlaying (togglePlayback True st_paused)"
    using togglePlayback_cases [of st_paused ?e2 True 2] h2 by blast
  have r3: "trace (togglePlayback False st_unbound) =
        trace st_unbound @ [ElementSetSrc 2, ElementPlay] @ (if False then [] else [ConsoleError])
      \<and> audioRef (togglePlayback False st_unbound) =
        Some (?e3\<lparr>src := Some 2, paused := paused ?e3 \<and> \<not> False\<rparr>)
      \<and> events (togglePlayback False st_unbound) =
        events st_unbound @ (if False \<and> paused ?e3 then [Play] else [])
      \<and> \<not> isPlaying (togglePlayback False st_unbound)"
    using togglePlayback_cases [of st_unbound ?e3 False 2] h3 by blast
  have r4: "togglePlayback True st_empty_element = st_empty_element"
    using togglePlayback_cases [of st_empty_element ?e3 True 2] h4 by blast
  have r5: "togglePlayback True init = init"
    using togglePlayback_cases [of init ?e3 True 2] h5 by blast
  from r1 r2 r3 r4 r5 show ?thesis by (simp add: t)
qed

text \<open>
  C3. A payload that is not \<open>application/octet-stream\<close> whose \<open>play()\<close> the environment
  refuses, submitted in any reachable state: the call returns normally, the status is
  not playing, no snapshot is published, and the graph and object URL built for the blob
  are live; \<open>togglePlayback\<close> then sets \<open>currentTime\<close> to 0 and calls \<open>play()\<close> on the
  element, still bound to that blob. The same holds when the \<open>catch\<close> block runs later,
  for a promise that was rejected after the call had issued \<open>play()\<close>.
\<close>

theorem rejected_autoplay_keeps_graph:
  "(reachable s \<and> blob_type b \<noteq> ''application/octet-stream'' \<longrightarrow>
     (\<exists>s'. handleAudioResponse (Some b) False s = Inr s'
        \<and> \<not> isPlaying s' \<and> snapshot s' = None \<and> one_graph_for b s'
        \<and> trace (togglePlayback a s') =
            trace s' @ [ElementSetCurrentTime 0, ElementPlay] @ (if a then [] else [ConsoleError])
        \<and> one_graph_for b (togglePlayback a s')))
 \<and> (one_graph_for b s \<longrightarrow>
        \<not> isPlaying (play_catch s) \<and> snapshot (play_catch s) = None
      \<and> one_graph_for b (play_catch s)
      \<and> trace (togglePlayback a (play_catch s)) =
          trace (play_catch s) @ [ElementSetCurrentTime 0, ElementPlay]
            @ (if a then [] else [ConsoleError])
      \<and> one_graph_for b (togglePlayback a (play_catch s)))"
proof (intro conjI impI)
  assume a: "reachable s \<and> blob_type b \<noteq> ''application/octet-stream''"
  then have r: "reachable s" and ty: "blob_type b \<noteq> ''application/octet-stream''" by simp_all
  from clip_submission [OF r ty, where allowed = False] obtain s1 s' where
    h: "handleAudioResponse (Some b) False s = Inr s'"
    and e: "s' = start_playback False (build b (revoke_previous s1))"
    and og: "one_graph_for b s'"
    by blast
  let ?m = "el_play False (build b (revoke_previous s1))"
  from e have p: "s' = play_catch ?m" by (simp add: start_playback_def)
  from og have "one_graph_for b (build b (revoke_previous s1))"
    by (simp only: e one_graph_for_start)
  then have g: "one_graph_for b ?m" by (simp only: one_graph_for_el_play)
  from after_catch [OF g] h p
  show "\<exists>s'. handleAudioResponse (Some b) False s = Inr s'
        \<and> \<not> isPlaying s' \<and> snapshot s' = None \<and> one_graph_for b s'
        \<and> trace (togglePlayback a s') =
            trace s' @ [ElementSetCurrentTime 0, ElementPlay] @ (if a then [] else [ConsoleError])
        \<and> one_graph_for b (togglePlayback a s')"
    by simp
next
  assume g: "one_graph_for b s"
  from after_catch [OF g]
  show "\<not> isPlaying (play_catch s)" "snapshot (play_catch s) = None"
    "one_graph_for b (play_catch s)"
    "trace (togglePlayback a (play_catch s)) =
          trace (play_catch s) @ [ElementSetCurrentTime 0, ElementPlay]
            @ (if a then [] else [ConsoleError])"
    "one_graph_for b (togglePlayback a (play_catch s))"
    by simp_all
qed

theorem rejected_autoplay_keeps_graph_witness:
  "(\<exists>s'. handleAudioResponse (Some clipA) False init = Inr s'
      \<and> \<not> isPlaying s' \<and> snapshot s' = None \<and> one_graph_for clipA s'
      \<and> trace (togglePlayback True s') = trace s' @ [ElementSetCurrentTime 0, ElementPlay]
      \<and> one_graph_for clipA (togglePlayback True s'))
 \<and> \<not> isPlaying (play_catch st_live) \<and> snapshot (play_catch st_live) = None
 \<and> one_graph_for clipA (play_catch st_live)
 \<and> one_graph_for clipA (togglePlayback True (play_catch st_live))"
proof -
  have b: "blob_type clipA \<noteq> ''application/octet-stream''" by (simp add: clipA_def)
  have g: "one_graph_for clipA st_live"
    by (simp add: one_graph_for_def st_live_def st_loaded_def)
  from rejected_autoplay_keeps_graph [of init clipA True] reachable_init b
  have "\<exists>s'. handleAudioResponse (Some clipA) False init = Inr s'
      \<and> \<not> isPlaying s' \<and> snapshot s' = None \<and> one_graph_for clipA s'
      \<and> trace (togglePlayback True s') = trace s' @ [ElementSetCurrentTime 0, ElementPlay]
          @ (if True then [] else [ConsoleError])
      \<and> one_graph_for clipA (togglePlayback True s')"
    by blast
  moreover from rejected_autoplay_keeps_graph [of st_live clipA True] g
  have "\<not> isPlaying (play_catch st_live) \<and> snapshot (play_catch st_live) = None
      \<and> one_graph_for clipA (play_catch st_live)
      \<and> one_graph_for clipA (togglePlayback True (play_catch st_live))"
    by blast
  ultimately show ?thesis by simp
qed




text \<open>
  C5, after the unmount effect. A clip is playing when the component unmounts: the
  effect's cleanup function closes the context and leaves it in \<open>audioContextRef\<close>. In
  that state \<open>cleanup\<close> raises \<open>InvalidStateError\<close>, and so does a call of
  \<open>handleAudioResponse\<close> that arrives then, at line 107: the guard of line 106 finds
  the ref set and \<open>close()\<close> is called on the closed context, the second \<open>close()\<close> on
  that context.
\<close>

theorem cleanup_after_unmount_raises:
  "\<exists>w. irun unmounted world0 = Some w
     \<and> audioContextRef (comp w) = Some 1 \<and> open_contexts (comp w) = [] \<and> waiting w = []
     \<and> cleanup (comp w) = Inl InvalidStateError
     \<and> snd (call_handleAudioResponse (Some clipB) w) = Some InvalidStateError
     \<and> filter (\<lambda>e. e = ContextClose 1)
          (trace (comp (fst (call_handleAudioResponse (Some clipB) w))))
         = [ContextClose 1, ContextClose 1]"
  by (simp add: unmounted_def model_defs world_defs init_def clipA_def clipB_def)



text \<open>
  C7, when the promise of \<open>play()\<close> is rejected after the \<open>play\<close> event. A clip is
  submitted to the initial state and its \<open>play\<close> event is dispatched, which sets the
  status to playing and starts the sampler; then the promise is rejected and the \<open>catch\<close>
  block of lines 184-190 runs. It sets the status to not playing and clears the
  snapshot, and it leaves the requested frame pending. That frame runs, publishes a
  snapshot of 128 bytes and requests the next one, which does the same: the snapshot is
  present and the status is not playing, frame after frame. The event loop \<open>step\<close> has
  the same run.
\<close>

theorem rejection_after_play_event:
  "\<exists>w w' w''. irun late_rejection world0 = Some w
     \<and> run [Submit (Some clipA) True, Deliver Play (\<lambda>_. 7), PlayRejected] init = Some (comp w)
     \<and> \<not> isPlaying (comp w) \<and> snapshot (comp w) = None
     \<and> pending_frames (comp w) = [4] \<and> animationFrameRef (comp w) = Some 4
     \<and> istep (Handle (Tick 4 (\<lambda>_. 9))) w = Some w'
     \<and> \<not> isPlaying (comp w') \<and> snapshot (comp w') = Some (replicate 128 9)
     \<and> pending_frames (comp w') = [5]
     \<and> istep (Handle (Tick 5 (\<lambda>_. 9))) w' = Some w''
     \<and> \<not> isPlaying (comp w'') \<and> snapshot (comp w'') = Some (replicate 128 9)
     \<and> pending_frames (comp w'') = [6]"
  by (simp add: late_rejection_def model_defs world_defs init_def clipA_def snapshot_def
      map_const_upt)

text \<open>
  C8, after two calls that overlap. Both elements of the run \<open>overlapping\<close> have a
  \<open>play\<close> event queued. Each listener calls \<open>animate\<close>, and the second call overwrites
  the handle that the first stored in \<open>animationFrameRef\<close>: two frames are pending and
  one handle is stored. The toggle pauses the current element, and the \<open>pause\<close>
  listener cancels the stored frame and clears the ref. The other frame is still
  scheduled although no handle is stored; it runs and publishes a snapshot while the
  status is not playing, and no \<open>play\<close> event was queued or dispatched since the
  cancellation.
\<close>

theorem stale_frame_after_pause:
  "\<exists>w w'. irun stale_frame world0 = Some w
     \<and> animationFrameRef (comp w) = None \<and> pending_frames (comp w) = [7]
     \<and> \<not> isPlaying (comp w) \<and> snapshot (comp w) = None \<and> events (comp w) = []
     \<and> last (trace (comp w)) = CancelAnimationFrame 8
     \<and> istep (Handle (Tick 7 (\<lambda>_. 9))) w = Some w'
     \<and> snapshot (comp w') = Some (replicate 128 9) \<and> \<not> isPlaying (comp w')
     \<and> sampler_publications (comp w') = Suc (sampler_publications (comp w))"
  by (simp add: stale_frame_def overlapping_def model_defs world_defs init_def clipA_def clipB_def
      snapshot_def sampler_publications_def map_const_upt)

text \<open>
  C9. A payload of type \<open>application/octet-stream\<close> (a live frame): its bytes become the
  published snapshot and the status becomes playing; no browser call is made and no ref,
  context, object URL, pending frame or queued event changes. In particular the bytes
  \<open>[10, 20, 30]\<close> submitted to the initial state give status playing and snapshot
  \<open>[10, 20, 30]\<close> with no graph.
\<close>

theorem live_frame_publishes:
  "(blob_type b = ''application/octet-stream'' \<longrightarrow>
     (\<exists>s'. handleAudioResponse (Some b) allowed s = Inr s'
        \<and> snapshot s' = Some (blob_bytes b) \<and> isPlaying s'
        \<and> trace s' = trace s
        \<and> audioContextRef s' = audioContextRef s \<and> analyserRef s' = analyserRef s
        \<and> audioSourceRef s' = audioSourceRef s \<and> audioRef s' = audioRef s
        \<and> currentAudioUrlRef s' = currentAudioUrlRef s
        \<and> animationFrameRef s' = animationFrameRef s
        \<and> open_contexts s' = open_contexts s \<and> live_urls s' = live_urls s
        \<and> pending_frames s' = pending_frames s \<and> events s' = events s))
 \<and> (\<exists>s'. handleAudioResponse (Some frame123) allowed init = Inr s'
        \<and> snapshot s' = Some [10, 20, 30] \<and> isPlaying s' \<and> idle s' \<and> trace s' = [])"
proof (intro conjI impI)
  assume "blob_type b = ''application/octet-stream''"
  then show "\<exists>s'. handleAudioResponse (Some b) allowed s = Inr s'
        \<and> snapshot s' = Some (blob_bytes b) \<and> isPlaying s'
        \<and> trace s' = trace s
        \<and> audioContextRef s' = audioContextRef s \<and> analyserRef s' = analyserRef s
        \<and> audioSourceRef s' = audioSourceRef s \<and> audioRef s' = audioRef s
        \<and> currentAudioUrlRef s' = currentAudioUrlRef s
        \<and> animationFrameRef s' = animationFrameRef s
        \<and> open_contexts s' = open_contexts s \<and> live_urls s' = live_urls s
        \<and> pending_frames s' = pending_frames s \<and> events s' = events s"
    by (simp add: handleAudioResponse_def setAudioData_new_def snapshot_def)
next
  show "\<exists>s'. handleAudioResponse (Some frame123) allowed init = Inr s'
        \<and> snapshot s' = Some [10, 20, 30] \<and> isPlaying s' \<and> idle s' \<and> trace s' = []"
    by (simp add: handleAudioResponse_def setAudioData_new_def snapshot_def frame123_def
        init_def idle_def)
qed

theorem live_frame_publishes_witness:
  "\<exists>s'. handleAudioResponse (Some frame123) True st_live = Inr s'
      \<and> snapshot s' = Some [10, 20, 30] \<and> isPlaying s'
      \<and> trace s' = trace st_live \<and> audioContextRef s' = Some 1
      \<and> open_contexts s' = [1] \<and> pending_frames s' = [4]"
proof -
  have f: "blob_type frame123 = ''application/octet-stream''" "blob_bytes frame123 = [10, 20, 30]"
    by (simp_all add: frame123_def)
  have g: "audioContextRef st_live = Some 1" "open_contexts st_live = [1]"
    "pending_frames st_live = [4]"
    by (simp_all add: st_live_def st_loaded_def)
  from live_frame_publishes [of frame123 True st_live] f(1)
  have "\<exists>s'. handleAudioResponse (Some frame123) True st_live = Inr s'
        \<and> snapshot s' = Some (blob_bytes frame123) \<and> isPlaying s'
        \<and> trace s' = trace st_live
        \<and> audioContextRef s' = audioContextRef st_live
        \<and> open_contexts s' = open_contexts st_live
        \<and> pending_frames s' = pending_frames st_live"
    by blast
  then show ?thesis by (simp add: f(2) g)
qed

text \<open>
  C10. In a reachable state, a snapshot published by the sampler (by the dispatch of a
  \<open>play\<close> event or by an animation frame) is an array at a new address of the heap,
  with exactly \<open>128\<close> bytes; a payload of type \<open>application/octet-stream\<close> publishes, at
  a new address, the bytes of the payload, whatever their number. Nothing that happens
  later changes an array that exists: every address of the heap keeps its contents
  through every run. The published address is always an address of the heap. So two
  published snapshots need not have the same length: there are reachable states with
  snapshots of different lengths.
\<close>

theorem snapshot_sizes:
  "(reachable s \<longrightarrow>
      (\<forall>f s1. step (Deliver Play f) s = Some s1 \<longrightarrow>
         audioData s1 = Some (length (heap s)) \<and> length (heap s1) = Suc (length (heap s))
       \<and> (\<exists>arr. snapshot s1 = Some arr \<and> length arr = 128))
    \<and> (\<forall>h g s1. step (Tick h g) s = Some s1 \<longrightarrow>
         audioData s1 = Some (length (heap s)) \<and> length (heap s1) = Suc (length (heap s))
       \<and> (\<exists>arr. snapshot s1 = Some arr \<and> length arr = 128))
    \<and> (\<forall>b a s1. blob_type b = ''application/octet-stream''
          \<and> step (Submit (Some b) a) s = Some s1 \<longrightarrow>
         audioData s1 = Some (length (heap s)) \<and> snapshot s1 = Some (blob_bytes b))
    \<and> (\<forall>as s' i. run as s = Some s' \<and> i < length (heap s) \<longrightarrow> heap s' ! i = heap s ! i)
    \<and> (\<forall>i. audioData s = Some i \<longrightarrow> i < length (heap s)))
 \<and> (\<exists>s1 s2 x y. reachable s1 \<and> reachable s2 \<and> snapshot s1 = Some x \<and> snapshot s2 = Some y
        \<and> length x \<noteq> length y)"
proof (intro conjI impI allI)
  fix f s1 assume r: "reachable s" and st: "step (Deliver Play f) s = Some s1"
  note d = deliver_play [OF r st]
  from d(2) show "audioData s1 = Some (length (heap s))" .
  from d(5) show "length (heap s1) = Suc (length (heap s))" by simp
  from snapshot_new [OF d(2,5)]
  show "\<exists>arr. snapshot s1 = Some arr \<and> length arr = 128"
    by (simp add: length_getByteFrequencyData)
next
  fix h g s1 assume r: "reachable s" and st: "step (Tick h g) s = Some s1"
  note d = tick_publishes [OF r st]
  from d(2) show "audioData s1 = Some (length (heap s))" .
  from d(3) show "length (heap s1) = Suc (length (heap s))" by simp
  from snapshot_new [OF d(2,3)]
  show "\<exists>arr. snapshot s1 = Some arr \<and> length arr = 128"
    by (simp add: length_getByteFrequencyData)
next
  fix b a s1
  assume "blob_type b = ''application/octet-stream'' \<and> step (Submit (Some b) a) s = Some s1"
  then have e: "s1 = (setAudioData_new (blob_bytes b) s)\<lparr>isPlaying := True\<rparr>"
    by (auto simp: handleAudioResponse_def)
  then show "audioData s1 = Some (length (heap s))" by (simp add: setAudioData_new_def)
  from e show "snapshot s1 = Some (blob_bytes b)"
    by (simp add: setAudioData_new_def snapshot_def)
next
  fix as s' i
  assume r: "reachable s" and a: "run as s = Some s' \<and> i < length (heap s)"
  with run_heap [OF r, of as s'] show "heap s' ! i = heap s ! i" by (simp add: prefix_nth)
next
  fix i assume "reachable s" "audioData s = Some i"
  with reachable_inv [of s] show "i < length (heap s)" by (simp add: inv_def inv_heap_def)
next
  let ?s2 = "(setAudioData_new [10, 20, 30] init)\<lparr>isPlaying := True\<rparr>"
  have "snapshot st_live = Some (replicate 128 7)"
    by (simp add: snapshot_def st_live_def st_loaded_def)
  moreover have "snapshot ?s2 = Some [10, 20, 30]"
    by (simp add: snapshot_def setAudioData_new_def)
  moreover have "length (replicate 128 (7 :: byte)) \<noteq> length [10, 20, 30 :: byte]" by simp
  ultimately show "\<exists>s1 s2 x y. reachable s1 \<and> reachable s2 \<and> snapshot s1 = Some x
      \<and> snapshot s2 = Some y \<and> length x \<noteq> length y"
    using reachable_st_live reachable_frame123 by blast
qed

theorem snapshot_sizes_witness:
  "(\<exists>s1 arr. step (Deliver Play (\<lambda>_. 7)) st_loaded = Some s1 \<and> audioData s1 = Some 0
      \<and> snapshot s1 = Some arr \<and> length arr = 128)
 \<and> (\<exists>s1 arr. step (Tick 4 (\<lambda>_. 9)) st_live = Some s1 \<and> audioData s1 = Some 1
      \<and> snapshot s1 = Some arr \<and> length arr = 128 \<and> heap s1 ! 0 = replicate 128 7)
 \<and> (\<exists>s1. step (Submit (Some frame123) True) st_live = Some s1 \<and> audioData s1 = Some 1
      \<and> snapshot s1 = Some [10, 20, 30] \<and> heap s1 ! 0 = replicate 128 7)
 \<and> audioData st_live = Some 0 \<and> 0 < length (heap st_live)"
proof -
  note t1 = snapshot_sizes [of st_loaded, THEN conjunct1, rule_format, OF reachable_st_loaded]
  note t2 = snapshot_sizes [of st_live, THEN conjunct1, rule_format, OF reachable_st_live]
  have h: "length (heap st_loaded) = 0" "length (heap st_live) = 1" "heap st_live ! 0 = replicate 128 7"
    by (simp_all add: st_loaded_def st_live_def)
  have 1: "\<exists>s1 arr. step (Deliver Play (\<lambda>_. 7)) st_loaded = Some s1 \<and> audioData s1 = Some 0
      \<and> snapshot s1 = Some arr \<and> length arr = 128"
    using t1 st_live_step h(1) by metis
  obtain s1 where tk: "step (Tick 4 (\<lambda>_. 9)) st_live = Some s1"
    by (simp add: frame_fires_def st_live_def)
  then have rn: "run [Tick 4 (\<lambda>_. 9)] st_live = Some s1" by simp
  have "heap s1 ! 0 = heap st_live ! 0"
    using t2 rn h(2) by (metis zero_less_one)
  with t2 tk h have 2: "\<exists>s1 arr. step (Tick 4 (\<lambda>_. 9)) st_live = Some s1 \<and> audioData s1 = Some 1
      \<and> snapshot s1 = Some arr \<and> length arr = 128 \<and> heap s1 ! 0 = replicate 128 7"
    by metis
  obtain s2 where sb: "step (Submit (Some frame123) True) st_live = Some s2"
    by (simp add: handleAudioResponse_def frame123_def)
  then have rn2: "run [Submit (Some frame123) True] st_live = Some s2" by simp
  have ty: "blob_type frame123 = ''application/octet-stream''" "blob_bytes frame123 = [10, 20, 30]"
    by (simp_all add: frame123_def)
  have "heap s2 ! 0 = heap st_live ! 0"
    using t2 rn2 h(2) by (metis zero_less_one)
  with t2 sb h ty have 3: "\<exists>s1. step (Submit (Some frame123) True) st_live = Some s1 \<and> audioData s1 = Some 1
      \<and> snapshot s1 = Some [10, 20, 30] \<and> heap s1 ! 0 = replicate 128 7"
    by metis
  have ad: "audioData st_live = Some 0" by (simp add: st_live_def)
  with t2 have 4: "0 < length (heap st_live)" by blast
  from 1 2 3 4 ad show ?thesis by blast
qed

end
